theory Spec2Isabelle
  imports Complex_Main
begin

section \<open>The Thumb War server (server.js) as a state machine\<close>

text \<open>
  The server keeps one process-wide map \<open>rooms\<close> from room codes to room objects and, for
  every connection, one closure variable \<open>roomId\<close>. Four handlers touch them: \<open>joinRoom\<close>,
  \<open>input\<close>, \<open>disconnect\<close> (socket events) and \<open>tickRoom\<close> (called by the interval timer
  of a room, 60 times a second, while that timer is set).

  Modelling decisions:
  \<^item> JavaScript numbers are modelled as exact reals; \<open>Math.hypot\<close> is the Euclidean norm.
    JavaScript's division by zero yields NaN or an infinity, which no real number stands
    for: the quotient \<open>js_div\<close> has no value there.
  \<^item> \<open>room.players\<close> is a JavaScript object keyed by socket id. Its keys are unique and
    \<open>Object.values\<close> lists them in insertion order, so it is an association list in
    insertion order: assigning to an existing key replaces the value in place, assigning
    to a new key appends, \<open>delete\<close> removes.
  \<^item> \<open>room.interval\<close> holds the handle of the room's timer or is \<open>undefined\<close>/\<open>null\<close>. The
    callback of the timer is \<open>() => tickRoom(roomId)\<close>, where \<open>roomId\<close> is the closure variable
    of the connection whose \<open>joinRoom\<close> created the timer: every call reads the value that
    variable has then. A timer is cleared whenever the field holding it is reset, so a
    running timer is the \<open>interval\<close> of exactly one room, and the field is modelled as the
    connection that created the timer, or \<open>None\<close>.
  \<^item> The \<open>emit\<close> calls (lobby, state, end) and \<open>socket.join\<close> do not change the server's
    state and are left out; the acknowledgement of \<open>joinRoom\<close> is the handler's result.
  \<^item> The room code a client sends is an ASCII string (\<open>String.literal\<close>); on these
    \<open>trim\<close> strips the six ASCII white space characters and \<open>toUpperCase\<close> maps a to z.
    Codes with other characters are outside the model.
  \<^item> Socket ids are never reused, so no event of a connection follows its disconnect; the
    theorems on all runs hold of the runs with this property in particular.
\<close>

subsection \<open>Data\<close>

datatype role = P1 | P2 | P3

type_synonym socket_id = string

record player =
  id_p :: socket_id
  role :: role
  x :: real
  y :: real
  vx :: real
  vy :: real
  pressing :: bool
  pinTimer :: real
  thumbFile :: string
  z :: nat

record room =
  players :: "(socket_id \<times> player) list"
  width :: real
  height :: real
  radius :: real
  winPinSeconds :: real
  winner :: "role option"
  interval :: "socket_id option"

record server =
  rooms :: "string \<rightharpoonup> room"
  roomId :: "socket_id \<Rightarrow> string option"

text \<open>The payload of \<open>joinRoom\<close> (\<open>data\<close>, possibly absent, with a possibly absent
  \<open>thumbFile\<close>) and of \<open>input\<close> (five flags).\<close>

record join_data =
  jd_thumbFile :: "string option"

record input_data =
  up :: bool
  down :: bool
  left :: bool
  right :: bool
  in_pressing :: bool

text \<open>What \<open>joinRoom\<close> passes to \<open>ack\<close>: \<open>{ok: true, role, config}\<close> with the four
  configuration numbers (width, height, radius, winPinSeconds), or \<open>{ok: false, error}\<close>.
  \<open>JoinThrew\<close> stands for the TypeError JavaScript would raise on a missing room object;
  the handler never reaches it.\<close>

datatype ack = JoinOk role real real real real | JoinError string | JoinThrew

datatype event =
    JoinRoom socket_id "String.literal option" "join_data option"
  | Input socket_id input_data
  | Disconnect socket_id
  | Tick string

subsection \<open>Strings and numbers of the JavaScript runtime\<close>

definition is_ws :: "char \<Rightarrow> bool" where
  "is_ws c = (c = CHR '' '' \<or> c = CHR 0x09 \<or> c = CHR 0x0A \<or> c = CHR 0x0B
              \<or> c = CHR 0x0C \<or> c = CHR 0x0D)"

definition trim :: "string \<Rightarrow> string" where
  "trim s = rev (dropWhile is_ws (rev (dropWhile is_ws s)))"

definition upper_char :: "char \<Rightarrow> char" where
  "upper_char c =
     (if (97::nat) \<le> of_char c \<and> of_char c \<le> (122::nat)
      then char_of (of_char c - (32::nat)) else c)"

definition toUpperCase :: "string \<Rightarrow> string" where
  "toUpperCase s = map upper_char s"

definition hypot :: "real \<Rightarrow> real \<Rightarrow> real" where
  "hypot a b = sqrt (a * a + b * b)"

definition b2r :: "bool \<Rightarrow> real" where
  "b2r b = (if b then 1 else 0)"

subsection \<open>The \<open>players\<close> object\<close>

fun obj_get :: "(socket_id \<times> player) list \<Rightarrow> socket_id \<Rightarrow> player option" where
  "obj_get [] k = None"
| "obj_get ((k', v) # ps) k = (if k' = k then Some v else obj_get ps k)"

fun obj_set :: "socket_id \<Rightarrow> player \<Rightarrow> (socket_id \<times> player) list \<Rightarrow> (socket_id \<times> player) list" where
  "obj_set k v [] = [(k, v)]"
| "obj_set k v ((k', v') # ps) = (if k' = k then (k, v) # ps else (k', v') # obj_set k v ps)"

definition obj_delete :: "socket_id \<Rightarrow> (socket_id \<times> player) list \<Rightarrow> (socket_id \<times> player) list" where
  "obj_delete k ps = filter (\<lambda>kv. fst kv \<noteq> k) ps"

definition obj_values :: "(socket_id \<times> player) list \<Rightarrow> player list" where
  "obj_values ps = map snd ps"

subsection \<open>Rooms and seats\<close>

definition newRoom :: room where
  "newRoom = \<lparr> players = [], width = 800, height = 500, radius = 30,
               winPinSeconds = 2, winner = None, interval = None \<rparr>"

definition createRoomIfNeeded :: "string \<Rightarrow> (string \<rightharpoonup> room) \<Rightarrow> (string \<rightharpoonup> room)" where
  "createRoomIfNeeded rid rs = (if rs rid = None then rs(rid := Some newRoom) else rs)"

definition assignRole :: "room \<Rightarrow> role option" where
  "assignRole rm =
     (let roles = map role (obj_values (players rm)) in
      if P1 \<notin> set roles then Some P1
      else if P2 \<notin> set roles then Some P2
      else if P3 \<notin> set roles then Some P3
      else None)"

definition spawn_x :: "room \<Rightarrow> role \<Rightarrow> real" where
  "spawn_x rm r = (case r of P1 \<Rightarrow> width rm * 0.2 | P2 \<Rightarrow> width rm * 0.5 | P3 \<Rightarrow> width rm * 0.8)"

definition spawn_y :: "room \<Rightarrow> role \<Rightarrow> real" where
  "spawn_y rm r = (case r of P1 \<Rightarrow> height rm * 0.5 | P2 \<Rightarrow> height rm * 0.5 | P3 \<Rightarrow> height rm * 0.5)"

subsection \<open>The \<open>joinRoom\<close> handler\<close>

definition normalize_rid :: "String.literal option \<Rightarrow> string" where
  "normalize_rid rid = toUpperCase (trim (case rid of None \<Rightarrow> [] | Some r \<Rightarrow> String.explode r))"

definition pick_thumbFile :: "join_data option \<Rightarrow> string" where
  "pick_thumbFile d =
     (case d of
        None \<Rightarrow> ''thumb1.png''
      | Some jd \<Rightarrow>
          (case jd_thumbFile jd of
             None \<Rightarrow> ''thumb1.png''
           | Some f \<Rightarrow> if f = [] then ''thumb1.png'' else f))"

text \<open>Lines 46 to 85 of the handler, once the room and the seat are known: the new player
  object is stored under the socket id, and a timer is started by this connection (and
  the winner cleared) when the room then has two players or more and no timer.\<close>

definition join_room :: "socket_id \<Rightarrow> role \<Rightarrow> join_data option \<Rightarrow> room \<Rightarrow> room" where
  "join_room sid r d rm =
     (let me = \<lparr> id_p = sid, role = r, x = spawn_x rm r, y = spawn_y rm r,
                vx = 0, vy = 0, pressing = False, pinTimer = 0,
                thumbFile = pick_thumbFile d, z = 0 \<rparr>;
          rm1 = rm\<lparr> players := obj_set sid me (players rm) \<rparr>;
          playerCount = length (players rm1)
      in if playerCount \<ge> 2 \<and> interval rm1 = None
         then rm1\<lparr> winner := None, interval := Some sid \<rparr> else rm1)"

text \<open>The handler assigns the connection's \<open>roomId\<close> first, then validates it.\<close>

definition joinRoom :: "socket_id \<Rightarrow> String.literal option \<Rightarrow> join_data option \<Rightarrow> server \<Rightarrow> ack \<times> server" where
  "joinRoom sid rid d s =
     (let rid' = normalize_rid rid;
          s1 = s\<lparr> roomId := (roomId s)(sid := Some rid') \<rparr>
      in if rid' = [] \<or> length rid' > 12 then (JoinError ''Invalid room id'', s1)
         else
           let rs = createRoomIfNeeded rid' (rooms s1) in
           case rs rid' of
             None \<Rightarrow> (JoinThrew, s1)
           | Some rm \<Rightarrow>
               (case assignRole rm of
                  None \<Rightarrow> (JoinError ''Room is full'', s1\<lparr> rooms := rs \<rparr>)
                | Some r \<Rightarrow>
                    (JoinOk r (width rm) (height rm) (radius rm) (winPinSeconds rm),
                     s1\<lparr> rooms := rs(rid' := Some (join_room sid r d rm)) \<rparr>)))"

subsection \<open>The \<open>input\<close> handler\<close>

definition speed :: real where
  "speed = 3.2"

text \<open>The quotient of two numbers where it is a number.\<close>

definition js_div :: "real \<Rightarrow> real \<Rightarrow> real option" where
  "js_div a b = (if b = 0 then None else Some (a / b))"

text \<open>Line 98, \<open>Math.hypot(me.vx, me.vy) || 1\<close>, and lines 96 to 100: the velocity the handler
  computes from the four direction flags.\<close>

definition mag :: "input_data \<Rightarrow> real" where
  "mag d =
     (let h = hypot (b2r (right d) - b2r (left d)) (b2r (down d) - b2r (up d))
      in if h = 0 then 1 else h)"

definition velocity :: "input_data \<Rightarrow> (real \<times> real) option" where
  "velocity d =
     (case js_div (b2r (right d) - b2r (left d)) (mag d) of
        None \<Rightarrow> None
      | Some qx \<Rightarrow>
          (case js_div (b2r (down d) - b2r (up d)) (mag d) of
             None \<Rightarrow> None
           | Some qy \<Rightarrow> Some (qx * speed, qy * speed)))"

text \<open>Lines 96 to 110 on the \<open>players\<close> object. Where \<open>velocity\<close> has no value the handler
  would store what is no number; the model then leaves the velocity as it was (the case
  never arises: \<open>velocity\<close> always has a value, as shown below).\<close>

definition apply_input :: "socket_id \<Rightarrow> input_data \<Rightarrow> (socket_id \<times> player) list \<Rightarrow> (socket_id \<times> player) list" where
  "apply_input sid d ps =
     map (\<lambda>(k, p).
        if k = sid
        then (k, (case velocity d of None \<Rightarrow> p | Some (qx, qy) \<Rightarrow> p\<lparr> vx := qx, vy := qy \<rparr>)
                   \<lparr> pressing := in_pressing d, z := (if in_pressing d then 1 else 0) \<rparr>)
        else (k, if in_pressing d then p\<lparr> z := 0 \<rparr> else p)) ps"

definition input_room :: "socket_id \<Rightarrow> input_data \<Rightarrow> room \<Rightarrow> room" where
  "input_room sid d rm = rm\<lparr> players := apply_input sid d (players rm) \<rparr>"

definition input :: "socket_id \<Rightarrow> input_data \<Rightarrow> server \<Rightarrow> server" where
  "input sid d s =
     (case roomId s sid of
        None \<Rightarrow> s
      | Some rid \<Rightarrow>
          if rid = [] then s
          else
            (case rooms s rid of
               None \<Rightarrow> s
             | Some rm \<Rightarrow>
                 (case obj_get (players rm) sid of
                    None \<Rightarrow> s
                  | Some me \<Rightarrow>
                      if winner rm \<noteq> None then s
                      else s\<lparr> rooms := (rooms s)(rid := Some (input_room sid d rm)) \<rparr>)))"

subsection \<open>The \<open>disconnect\<close> handler\<close>

text \<open>Lines 117 to 126: the player is deleted; a running timer is stopped and the winner
  cleared when fewer than two players remain.\<close>

definition leave_room :: "socket_id \<Rightarrow> room \<Rightarrow> room" where
  "leave_room sid rm =
     (let rm1 = rm\<lparr> players := obj_delete sid (players rm) \<rparr>;
          playerCount = length (players rm1)
      in if playerCount < 2 \<and> interval rm1 \<noteq> None
         then rm1\<lparr> interval := None, winner := None \<rparr> else rm1)"

text \<open>The handler leaves the connection's \<open>roomId\<close> as it is: a timer the connection
  created goes on reading it.\<close>

definition disconnect :: "socket_id \<Rightarrow> server \<Rightarrow> server" where
  "disconnect sid s =
     (case roomId s sid of
        None \<Rightarrow> s
      | Some rid \<Rightarrow>
          if rid = [] then s
          else
            (case rooms s rid of
               None \<Rightarrow> s
             | Some rm \<Rightarrow>
                 let rm' = leave_room sid rm in
                 if length (players rm') = 0 then s\<lparr> rooms := (rooms s)(rid := None) \<rparr>
                 else s\<lparr> rooms := (rooms s)(rid := Some rm') \<rparr>))"

subsection \<open>The game loop \<open>tickRoom\<close>\<close>

definition dt :: real where
  "dt = 1 / 60"

definition move_clamp :: "room \<Rightarrow> player \<Rightarrow> player" where
  "move_clamp rm p =
     p\<lparr> x := max (radius rm) (min (width rm - radius rm) (x p + vx p)),
        y := max (radius rm) (min (height rm - radius rm) (y p + vy p)) \<rparr>"

text \<open>The body of the two nested loops, for the pair \<open>a = playersArr[i]\<close>, \<open>b = playersArr[j]\<close>.\<close>

definition pin_pair :: "room \<Rightarrow> player \<Rightarrow> player \<Rightarrow> player \<times> player" where
  "pin_pair rm a b =
     (let dist = hypot (x a - x b) (y a - y b) in
      if dist < radius rm * 1.4
      then (if z a > z b \<and> pressing a then a\<lparr> pinTimer := pinTimer a + dt \<rparr>
            else a\<lparr> pinTimer := max 0 (pinTimer a - dt * 0.5) \<rparr>,
            if z b > z a \<and> pressing b then b\<lparr> pinTimer := pinTimer b + dt \<rparr>
            else b\<lparr> pinTimer := max 0 (pinTimer b - dt * 0.5) \<rparr>)
      else (a\<lparr> pinTimer := max 0 (pinTimer a - dt * 0.5) \<rparr>,
            b\<lparr> pinTimer := max 0 (pinTimer b - dt * 0.5) \<rparr>))"

text \<open>The inner loop \<open>for (j = i + 1; ...)\<close>: player \<open>a\<close> meets every later player in turn,
  both objects being updated in place. The outer loop \<open>for (i = 0; ...)\<close> then goes on with
  the next player, who carries the updates of the earlier rows.\<close>

fun pin_row :: "room \<Rightarrow> player \<Rightarrow> player list \<Rightarrow> player \<times> player list" where
  "pin_row rm a [] = (a, [])"
| "pin_row rm a (b # bs) =
     (case pin_pair rm a b of (a', b') \<Rightarrow>
        (case pin_row rm a' bs of (a'', bs') \<Rightarrow> (a'', b' # bs')))"

function pin_logic :: "room \<Rightarrow> player list \<Rightarrow> player list" where
  "pin_logic rm [] = []"
| "pin_logic rm (a # bs) = (case pin_row rm a bs of (a', bs') \<Rightarrow> a' # pin_logic rm bs')"
  by pat_completeness auto
termination
proof (relation "measure (\<lambda>(rm, ps). length ps)")
  show "wf (measure (\<lambda>(rm, ps). length ps))" by simp
next
  fix rm :: room and a :: player and bs :: "player list" and a' bs'
  assume "(a', bs') = pin_row rm a bs"
  moreover have "length (snd (pin_row rm a bs)) = length bs"
    by (induction bs arbitrary: a) (simp_all add: case_prod_unfold)
  ultimately have "length bs' = length bs"
    by (metis snd_conv)
  then show "((rm, bs'), (rm, a # bs)) \<in> measure (\<lambda>(rm, ps). length ps)" by simp
qed

definition tick_players :: "room \<Rightarrow> player list \<Rightarrow> player list" where
  "tick_players rm ps = pin_logic rm (map (move_clamp rm) ps)"

text \<open>Lines 142 to 176, for a room with at least two players. The player objects are
  updated in place, so the keys of \<open>room.players\<close> and their order stay.\<close>

definition tick_room :: "room \<Rightarrow> room" where
  "tick_room rm =
     (let playersArr = tick_players rm (obj_values (players rm));
          rm1 = rm\<lparr> players := zip (map fst (players rm)) playersArr \<rparr>
      in case find (\<lambda>p. pinTimer p \<ge> winPinSeconds rm1) playersArr of
           None \<Rightarrow> rm1
         | Some w \<Rightarrow>
             if winner rm1 = None
             then rm1\<lparr> winner := Some (role w), interval := None \<rparr>
             else rm1)"

definition tickRoom :: "string \<Rightarrow> server \<Rightarrow> server" where
  "tickRoom rid s =
     (case rooms s rid of
        None \<Rightarrow> s
      | Some rm \<Rightarrow>
          if length (obj_values (players rm)) < 2 then s
          else s\<lparr> rooms := (rooms s)(rid := Some (tick_room rm)) \<rparr>)"

subsection \<open>The server as a transition system\<close>

text \<open>The event \<open>Tick rid\<close>: the timer held by room \<open>rid\<close> fires. Its callback calls \<open>tickRoom\<close>
  with the current \<open>roomId\<close> of the connection that created it (\<open>null\<close> is the key of no
  room). A room without a timer has none to fire.\<close>

definition fire :: "string \<Rightarrow> server \<Rightarrow> server" where
  "fire rid s =
     (case rooms s rid of
        None \<Rightarrow> s
      | Some rm \<Rightarrow>
          (case interval rm of
             None \<Rightarrow> s
           | Some creator \<Rightarrow>
               (case roomId s creator of
                  None \<Rightarrow> s
                | Some target \<Rightarrow> tickRoom target s)))"

fun step :: "server \<Rightarrow> event \<Rightarrow> server" where
  "step s (JoinRoom sid rid d) = snd (joinRoom sid rid d s)"
| "step s (Input sid d) = input sid d s"
| "step s (Disconnect sid) = disconnect sid s"
| "step s (Tick rid) = fire rid s"

definition run :: "server \<Rightarrow> event list \<Rightarrow> server" where
  "run s evs = foldl step s evs"

definition init :: server where
  "init = \<lparr> rooms = Map.empty, roomId = (\<lambda>_. None) \<rparr>"

section \<open>Properties, auxiliary notions and scenarios\<close>

subsection \<open>Properties of rooms\<close>

text \<open>A property of single rooms, stated of every room of the server.\<close>

definition all_rooms :: "(room \<Rightarrow> bool) \<Rightarrow> server \<Rightarrow> bool" where
  "all_rooms P s = (\<forall>rid rm. rooms s rid = Some rm \<longrightarrow> P rm)"

text \<open>The room holds a timer exactly when it has two players or more and no recorded
  winner.\<close>

definition tick_ok :: "room \<Rightarrow> bool" where
  "tick_ok rm = (interval rm \<noteq> None \<longleftrightarrow> (2 \<le> length (players rm) \<and> winner rm = None))"

text \<open>The field \<open>z\<close> is the dominant flag: 1 for the raised thumb, 0 otherwise.\<close>

definition dominant :: "player \<Rightarrow> bool" where
  "dominant p = (0 < z p)"

text \<open>The keys of \<open>room.players\<close> are unique (it is an object), and at most one player is
  dominant.\<close>

definition dom_ok :: "room \<Rightarrow> bool" where
  "dom_ok rm = (distinct (map fst (players rm)) \<and>
                length (filter dominant (obj_values (players rm))) \<le> 1)"

text \<open>No pin timer is negative.\<close>

definition timer_ok :: "room \<Rightarrow> bool" where
  "timer_ok rm = (\<forall>p \<in> set (obj_values (players rm)). 0 \<le> pinTimer p)"

text \<open>The room has the configuration of \<open>createRoomIfNeeded\<close>.\<close>

definition config_ok :: "room \<Rightarrow> bool" where
  "config_ok rm = (width rm = 800 \<and> height rm = 500 \<and> radius rm = 30 \<and> winPinSeconds rm = 2)"

subsection \<open>The pin phase, player by player\<close>

definition in_contact :: "room \<Rightarrow> player \<Rightarrow> player \<Rightarrow> bool" where
  "in_contact rm p q = (hypot (x p - x q) (y p - y q) < radius rm * 1.4)"

text \<open>What one pair does to the timer \<open>t\<close> of its member \<open>p\<close>, the other member being \<open>q\<close>:
  the branches of \<open>pin_pair\<close>, read for one member.\<close>

definition pin_step :: "room \<Rightarrow> player \<Rightarrow> player \<Rightarrow> real \<Rightarrow> real" where
  "pin_step rm p q t =
     (if in_contact rm p q \<and> z q < z p \<and> pressing p then t + dt else max 0 (t - dt * 0.5))"




subsection \<open>The input handler, player by player\<close>

text \<open>What \<open>input\<close> does to the sender's own player object, and to every other player
  object of the room: the two branches of \<open>apply_input\<close>.\<close>

definition input_me :: "input_data \<Rightarrow> player \<Rightarrow> player" where
  "input_me d p =
     (case velocity d of None \<Rightarrow> p | Some (qx, qy) \<Rightarrow> p\<lparr> vx := qx, vy := qy \<rparr>)
       \<lparr> pressing := in_pressing d, z := (if in_pressing d then 1 else 0) \<rparr>"

definition input_other :: "input_data \<Rightarrow> player \<Rightarrow> player" where
  "input_other d p = (if in_pressing d then p\<lparr> z := 0 \<rparr> else p)"

subsection \<open>A game in room A\<close>

text \<open>Two connections, a and b, join room A; the join of b starts the timer.\<close>

definition two_joins :: "event list" where
  "two_joins = [JoinRoom ''a'' (Some (STR ''A'')) None, JoinRoom ''b'' (Some (STR ''A'')) None]"

definition player_a :: player where
  "player_a = \<lparr> id_p = ''a'', role = P1, x = 160, y = 250, vx = 0, vy = 0, pressing = False,
                pinTimer = 0, thumbFile = ''thumb1.png'', z = 0 \<rparr>"

definition player_b :: player where
  "player_b = \<lparr> id_p = ''b'', role = P2, x = 400, y = 250, vx = 0, vy = 0, pressing = False,
                pinTimer = 0, thumbFile = ''thumb1.png'', z = 0 \<rparr>"

definition room_ab :: room where
  "room_ab = \<lparr> players = [(''a'', player_a), (''b'', player_b)], width = 800, height = 500,
               radius = 30, winPinSeconds = 2, winner = None, interval = Some ''b'' \<rparr>"

definition server_ab :: server where
  "server_ab = \<lparr> rooms = (\<lambda>_. None)(''A'' := Some room_ab),
                 roomId = (\<lambda>_. None)(''a'' := Some ''A'', ''b'' := Some ''A'') \<rparr>"

text \<open>The server with the connections a and b in room A, the room being \<open>rm\<close>.\<close>

definition srv :: "room \<Rightarrow> server" where
  "srv rm = \<lparr> rooms = (\<lambda>_. None)(''A'' := Some rm),
              roomId = (\<lambda>_. None)(''a'' := Some ''A'', ''b'' := Some ''A'') \<rparr>"

text \<open>The inputs of the game: thumb raised heading right, thumb raised standing, and
  everything released.\<close>

definition press_right :: input_data where
  "press_right = \<lparr> up = False, down = False, left = False, right = True, in_pressing = True \<rparr>"

definition press_only :: input_data where
  "press_only = \<lparr> up = False, down = False, left = False, right = False, in_pressing = True \<rparr>"

definition release_all :: input_data where
  "release_all = \<lparr> up = False, down = False, left = False, right = False, in_pressing = False \<rparr>"

text \<open>Player a heads right with its thumb raised, at \<open>xa\<close>; b stands still.\<close>

definition approach :: "real \<Rightarrow> room" where
  "approach xa = room_ab\<lparr> players :=
     [(''a'', player_a\<lparr> x := xa, vx := 3.2, pressing := True, z := 1 \<rparr>),
      (''b'', player_b)] \<rparr>"

text \<open>The room at the tick of first contact: a has moved to 358.4 and gained one \<open>dt\<close>.\<close>

definition room_contact :: room where
  "room_contact = room_ab\<lparr> players :=
     [(''a'', player_a\<lparr> x := 358.4, vx := 3.2, pressing := True, z := 1, pinTimer := 1 / 60 \<rparr>),
      (''b'', player_b)] \<rparr>"

text \<open>Player a stands at 358.4, in contact with b, thumb raised, its timer at \<open>t\<close>.\<close>

definition hold :: "real \<Rightarrow> room" where
  "hold t = room_ab\<lparr> players :=
     [(''a'', player_a\<lparr> x := 358.4, pressing := True, z := 1, pinTimer := t \<rparr>),
      (''b'', player_b)] \<rparr>"

text \<open>Both join, a raises its thumb and walks right for 62 ticks.\<close>

definition approach_trace :: "event list" where
  "approach_trace = two_joins @ [Input ''a'' press_right] @ replicate 62 (Tick ''A'')"

text \<open>After the first contact a stops and lowers its thumb for one tick, then raises it
  again for 120 ticks; the last of them records the winner.\<close>

definition over_trace :: "event list" where
  "over_trace = approach_trace @
     [Input ''a'' release_all, Tick ''A'', Input ''a'' press_only] @ replicate 120 (Tick ''A'')"

definition room_over :: room where
  "room_over = room_ab\<lparr> players :=
       [(''a'', player_a\<lparr> x := 358.4, pressing := True, z := 1, pinTimer := 241 / 120 \<rparr>),
        (''b'', player_b)],
     winner := Some P1, interval := None \<rparr>"

text \<open>A room at the edge: a is about to leave the arena at the right and at the top, b
  walks right inside it.\<close>

definition room_edge :: room where
  "room_edge = room_ab\<lparr> players :=
     [(''a'', player_a\<lparr> x := 769, y := 31, vx := 3.2, vy := - 3.2 \<rparr>),
      (''b'', player_b\<lparr> vx := 3.2 \<rparr>)] \<rparr>"


section \<open>Invariants of the rooms\<close>

lemma all_rooms_init: "all_rooms P init"
  by (simp add: all_rooms_def init_def)

lemma joinRoom_all_rooms:
  assumes s: "all_rooms P s" and n: "P newRoom"
    and j: "\<And>r rm. P rm \<Longrightarrow> assignRole rm = Some r \<Longrightarrow> P (join_room sid r d rm)"
  shows "all_rooms P (snd (joinRoom sid rid d s))"
proof -
  define c where "c = normalize_rid rid"
  define rs where "rs = createRoomIfNeeded c (rooms s)"
  have rs: "\<And>k rm. rs k = Some rm \<Longrightarrow> P rm"
    using s n by (auto simp: rs_def createRoomIfNeeded_def all_rooms_def split: if_splits)
  show ?thesis
  proof (cases "c = [] \<or> length c > 12")
    case True
    then show ?thesis using s
      by (simp add: joinRoom_def Let_def c_def [symmetric] all_rooms_def)
  next
    case False
    show ?thesis
    proof (cases "rs c")
      case None
      then show ?thesis using s False
        by (simp add: joinRoom_def Let_def c_def [symmetric] rs_def [symmetric] all_rooms_def)
    next
      case (Some rm)
      show ?thesis
      proof (cases "assignRole rm")
        case None
        then show ?thesis using Some False rs
          by (simp add: joinRoom_def Let_def c_def [symmetric] rs_def [symmetric] all_rooms_def)
      next
        case (Some r)
        have "P (join_room sid r d rm)" using j rs \<open>rs c = Some rm\<close> Some by blast
        then show ?thesis using Some \<open>rs c = Some rm\<close> False rs
          by (simp add: joinRoom_def Let_def c_def [symmetric] rs_def [symmetric] all_rooms_def)
      qed
    qed
  qed
qed

lemma input_all_rooms:
  assumes s: "all_rooms P s"
    and i: "\<And>rm. P rm \<Longrightarrow> winner rm = None \<Longrightarrow> P (input_room sid d rm)"
  shows "all_rooms P (input sid d s)"
  using s i by (auto simp: input_def all_rooms_def split: option.splits)

lemma disconnect_all_rooms:
  assumes s: "all_rooms P s"
    and l: "\<And>rm. P rm \<Longrightarrow> P (leave_room sid rm)"
  shows "all_rooms P (disconnect sid s)"
  using s l by (auto simp: disconnect_def all_rooms_def Let_def split: option.splits if_splits)

lemma tickRoom_all_rooms:
  assumes s: "all_rooms P s"
    and t: "\<And>rm. P rm \<Longrightarrow> 2 \<le> length (players rm) \<Longrightarrow> P (tick_room rm)"
  shows "all_rooms P (tickRoom rid s)"
  using s t by (auto simp: tickRoom_def all_rooms_def obj_values_def split: option.splits if_splits)

lemma fire_all_rooms:
  assumes s: "all_rooms P s"
    and t: "\<And>rm. P rm \<Longrightarrow> 2 \<le> length (players rm) \<Longrightarrow> P (tick_room rm)"
  shows "all_rooms P (fire rid s)"
proof -
  have "\<And>target. all_rooms P (tickRoom target s)"
    by (rule tickRoom_all_rooms [OF s t])
  then show ?thesis using s by (simp add: fire_def split: option.splits)
qed

lemma step_all_rooms:
  assumes s: "all_rooms P s" and n: "P newRoom"
    and j: "\<And>sid r d rm. P rm \<Longrightarrow> assignRole rm = Some r \<Longrightarrow> P (join_room sid r d rm)"
    and i: "\<And>sid d rm. P rm \<Longrightarrow> winner rm = None \<Longrightarrow> P (input_room sid d rm)"
    and l: "\<And>sid rm. P rm \<Longrightarrow> P (leave_room sid rm)"
    and t: "\<And>rm. P rm \<Longrightarrow> 2 \<le> length (players rm) \<Longrightarrow> P (tick_room rm)"
  shows "all_rooms P (step s e)"
proof (cases e)
  case (JoinRoom sid rid d)
  then show ?thesis using joinRoom_all_rooms [OF s n j] by simp
next
  case (Input sid d)
  then show ?thesis using input_all_rooms [OF s i] by simp
next
  case (Disconnect sid)
  then show ?thesis using disconnect_all_rooms [OF s l] by simp
next
  case (Tick rid)
  then show ?thesis using fire_all_rooms [OF s t] by simp
qed

lemma run_all_rooms:
  assumes s: "all_rooms P s" and n: "P newRoom"
    and j: "\<And>sid r d rm. P rm \<Longrightarrow> assignRole rm = Some r \<Longrightarrow> P (join_room sid r d rm)"
    and i: "\<And>sid d rm. P rm \<Longrightarrow> winner rm = None \<Longrightarrow> P (input_room sid d rm)"
    and l: "\<And>sid rm. P rm \<Longrightarrow> P (leave_room sid rm)"
    and t: "\<And>rm. P rm \<Longrightarrow> 2 \<le> length (players rm) \<Longrightarrow> P (tick_room rm)"
  shows "all_rooms P (run s evs)"
  using s
proof (induction evs arbitrary: s)
  case Nil
  then show ?case by (simp add: run_def)
next
  case (Cons e evs)
  have "all_rooms P (step s e)" by (rule step_all_rooms [OF Cons.prems n j i l t])
  then have "all_rooms P (run (step s e) evs)" by (rule Cons.IH)
  then show ?case by (simp add: run_def)
qed

subsection \<open>What the pin phase does to one player\<close>

lemma hypot_swap: "hypot (a - b) (c - d) = hypot (b - a) (d - c)"
proof -
  have "(a - b) * (a - b) = (b - a) * (b - a)" and "(c - d) * (c - d) = (d - c) * (d - c)"
    by (simp_all add: algebra_simps)
  then show ?thesis by (simp add: hypot_def)
qed

lemma in_contact_sym: "in_contact rm p q = in_contact rm q p"
  by (simp add: in_contact_def hypot_swap [of "x p" "x q"])

lemma pin_step_pinTimer [simp]:
  "pin_step rm (p\<lparr>pinTimer := u\<rparr>) q = pin_step rm p q"
  "pin_step rm p (q\<lparr>pinTimer := u\<rparr>) = pin_step rm p q"
  by (simp_all add: pin_step_def in_contact_def fun_eq_iff)

lemma pin_pair_eq:
  "pin_pair rm a b =
     (a\<lparr>pinTimer := pin_step rm a b (pinTimer a)\<rparr>, b\<lparr>pinTimer := pin_step rm b a (pinTimer b)\<rparr>)"
proof -
  have c: "in_contact rm b a = in_contact rm a b" by (rule in_contact_sym)
  have d: "hypot (x a - x b) (y a - y b) < radius rm * 1.4 \<longleftrightarrow> in_contact rm a b"
    by (simp only: in_contact_def)
  show ?thesis
  proof (cases "in_contact rm a b")
    case True
    then show ?thesis unfolding pin_pair_def Let_def pin_step_def c d by simp
  next
    case False
    then show ?thesis unfolding pin_pair_def Let_def pin_step_def c d by simp
  qed
qed

lemma pin_row_eq:
  "pin_row rm a bs =
     (a\<lparr>pinTimer := foldl (\<lambda>t q. pin_step rm a q t) (pinTimer a) bs\<rparr>,
      map (\<lambda>b. b\<lparr>pinTimer := pin_step rm b a (pinTimer b)\<rparr>) bs)"
  by (induction bs arbitrary: a) (simp_all add: pin_pair_eq)

lemma pin_logic_nth:
  "k < length ps \<Longrightarrow>
   pin_logic rm ps ! k =
     (ps ! k)\<lparr>pinTimer :=
        foldl (\<lambda>t q. pin_step rm (ps ! k) q t) (pinTimer (ps ! k)) (take k ps @ drop (Suc k) ps)\<rparr>"
proof (induction rm ps arbitrary: k rule: pin_logic.induct)
  case (1 rm)
  then show ?case by simp
next
  case (2 rm a bs)
  define g where "g = (\<lambda>b. b\<lparr>pinTimer := pin_step rm b a (pinTimer b)\<rparr>)"
  define a' where "a' = a\<lparr>pinTimer := foldl (\<lambda>t q. pin_step rm a q t) (pinTimer a) bs\<rparr>"
  have row: "pin_row rm a bs = (a', map g bs)"
    by (simp add: pin_row_eq a'_def g_def)
  show ?case
  proof (cases k)
    case 0
    then show ?thesis by (simp add: row a'_def)
  next
    case (Suc n)
    with "2.prems" have n: "n < length (map g bs)" by simp
    have ih: "pin_logic rm (map g bs) ! n =
        (map g bs ! n)\<lparr>pinTimer :=
          foldl (\<lambda>t q. pin_step rm (map g bs ! n) q t) (pinTimer (map g bs ! n))
            (take n (map g bs) @ drop (Suc n) (map g bs))\<rparr>"
      using "2.IH" [OF row [symmetric] n] .
    have rest: "take n (map g bs) @ drop (Suc n) (map g bs) = map g (take n bs @ drop (Suc n) bs)"
      by (simp add: take_map drop_map)
    have gn: "map g bs ! n = g (bs ! n)" using n by simp
    have st: "\<And>q t. pin_step rm (g (bs ! n)) (g q) t = pin_step rm (bs ! n) q t"
      by (simp add: g_def)
    have "pin_logic rm (a # bs) ! k = pin_logic rm (map g bs) ! n"
      by (simp add: row Suc)
    also have "\<dots> = (g (bs ! n))\<lparr>pinTimer :=
          foldl (\<lambda>t q. pin_step rm (bs ! n) q t) (pinTimer (g (bs ! n)))
            (take n bs @ drop (Suc n) bs)\<rparr>"
      unfolding ih rest gn by (simp add: foldl_map st)
    also have "\<dots> = ((a # bs) ! k)\<lparr>pinTimer :=
          foldl (\<lambda>t q. pin_step rm ((a # bs) ! k) q t) (pinTimer ((a # bs) ! k))
            (take k (a # bs) @ drop (Suc k) (a # bs))\<rparr>"
      by (simp add: Suc g_def)
    finally show ?thesis .
  qed
qed

subsection \<open>Lengths\<close>

lemma length_obj_set_ge: "length ps \<le> length (obj_set k v ps)"
  by (induction ps) auto

lemma length_obj_delete_le: "length (obj_delete k ps) \<le> length ps"
  by (simp add: obj_delete_def)

lemma length_pin_logic: "length (pin_logic rm ps) = length ps"
proof (induction rm ps rule: pin_logic.induct)
  case (1 rm)
  then show ?case by simp
next
  case (2 rm a bs)
  then show ?case by (simp add: pin_row_eq)
qed

lemma length_tick_players: "length (tick_players rm ps) = length ps"
  by (simp add: tick_players_def length_pin_logic)

lemma players_tick_room:
  "players (tick_room rm) = zip (map fst (players rm)) (tick_players rm (obj_values (players rm)))"
  by (simp add: tick_room_def Let_def split: option.splits)

lemma length_players_tick_room: "length (players (tick_room rm)) = length (players rm)"
  by (simp add: players_tick_room obj_values_def length_tick_players)

subsection \<open>Evaluating concrete runs\<close>

lemma hypot_less_iff: "hypot a b < c \<longleftrightarrow> (0 < c \<and> a * a + b * b < c * c)"
proof (cases "0 < c")
  case True
  have "sqrt (a * a + b * b) < c \<longleftrightarrow> sqrt (a * a + b * b) < sqrt (c * c)"
    using True by simp
  also have "\<dots> \<longleftrightarrow> a * a + b * b < c * c" by (rule real_sqrt_less_iff)
  finally show ?thesis using True by (simp add: hypot_def)
next
  case False
  have "0 \<le> hypot a b" by (simp add: hypot_def)
  with False show ?thesis by auto
qed

lemma hypot_eq_0_iff: "hypot a b = 0 \<longleftrightarrow> a = 0 \<and> b = 0"
  by (simp add: hypot_def)

lemma hypot_0_right: "hypot a 0 = \<bar>a\<bar>"
  by (simp add: hypot_def)

lemma hypot_0_left: "hypot 0 b = \<bar>b\<bar>"
  by (simp add: hypot_def)

lemma normalize_rid_A: "normalize_rid (Some (STR ''A'')) = ''A''"
  by (simp add: normalize_rid_def toUpperCase_def trim_def is_ws_def upper_char_def
      zero_literal.rep_eq Literal.rep_eq)

lemmas join_simps = joinRoom_def join_room_def normalize_rid_A createRoomIfNeeded_def newRoom_def
  assignRole_def obj_values_def spawn_x_def spawn_y_def pick_thumbFile_def Let_def

lemma run_two_joins: "run init two_joins = server_ab"
  by (simp add: two_joins_def run_def init_def join_simps server_ab_def room_ab_def
      player_a_def player_b_def)

section \<open>The timer field and the membership of a room\<close>

lemma tick_ok_newRoom: "tick_ok newRoom"
  by (simp add: tick_ok_def newRoom_def)

lemma tick_ok_join_room: "tick_ok rm \<Longrightarrow> tick_ok (join_room sid r d rm)"
  using length_obj_set_ge [of "players rm" sid]
  by (auto simp: tick_ok_def join_room_def Let_def dest: order_trans)

lemma tick_ok_input_room: "tick_ok rm \<Longrightarrow> tick_ok (input_room sid d rm)"
  by (simp add: tick_ok_def input_room_def apply_input_def Let_def)

lemma tick_ok_leave_room: "tick_ok rm \<Longrightarrow> tick_ok (leave_room sid rm)"
  using length_obj_delete_le [of sid "players rm"]
  by (auto simp: tick_ok_def leave_room_def Let_def)

lemma tick_ok_tick_room: "tick_ok rm \<Longrightarrow> tick_ok (tick_room rm)"
  using length_players_tick_room [of rm]
  by (auto simp: tick_ok_def tick_room_def Let_def split: option.splits)

lemma tick_ok_run: "all_rooms tick_ok (run init evs)"
  by (rule run_all_rooms [where P = tick_ok, OF all_rooms_init tick_ok_newRoom])
    (simp_all add: tick_ok_join_room tick_ok_input_room tick_ok_leave_room tick_ok_tick_room)

section \<open>The dominant flag\<close>

lemma keys_obj_set: "fst ` set (obj_set k v ps) = insert k (fst ` set ps)"
proof (induction ps)
  case Nil
  then show ?case by simp
next
  case (Cons kv ps)
  obtain k' v' where kv: "kv = (k', v')" by (cases kv)
  show ?case using Cons kv by (cases "k' = k") (simp_all add: insert_commute)
qed

lemma distinct_obj_set: "distinct (map fst ps) \<Longrightarrow> distinct (map fst (obj_set k v ps))"
proof (induction ps)
  case Nil
  then show ?case by simp
next
  case (Cons kv ps)
  obtain k' v' where kv: "kv = (k', v')" by (cases kv)
  show ?case
  proof (cases "k' = k")
    case True
    then show ?thesis using Cons.prems kv by simp
  next
    case False
    have "distinct (map fst (obj_set k v ps))" using Cons by simp
    moreover have "k' \<notin> set (map fst (obj_set k v ps))"
      using Cons.prems kv False by (simp add: keys_obj_set)
    ultimately show ?thesis using kv False by simp
  qed
qed

lemma dominant_obj_set:
  "\<not> dominant v \<Longrightarrow>
   length (filter dominant (map snd (obj_set k v ps))) \<le> length (filter dominant (map snd ps))"
  by (induction ps) auto

lemma apply_input_eq:
  "apply_input sid d ps =
     map (\<lambda>(k, p). if k = sid then (k, input_me d p) else (k, input_other d p)) ps"
  unfolding apply_input_def input_me_def input_other_def Let_def ..

lemma map_fst_apply_input: "map fst (apply_input sid d ps) = map fst ps"
  unfolding apply_input_eq by (induction ps) auto

lemma obj_get_map_keyed:
  "obj_get (map (\<lambda>(k, p). if k = sid then (k, f p) else (k, g p)) ps) k' =
     map_option (if k' = sid then f else g) (obj_get ps k')"
  by (induction ps) auto

lemma obj_get_apply_input:
  "obj_get (apply_input sid d ps) k =
     map_option (if k = sid then input_me d else input_other d) (obj_get ps k)"
  unfolding apply_input_eq by (rule obj_get_map_keyed)

lemma obj_get_Some_iff: "distinct (map fst ps) \<Longrightarrow> obj_get ps k = Some p \<longleftrightarrow> (k, p) \<in> set ps"
  by (induction ps) (auto simp: rev_image_eqI split: if_splits)

lemma dominant_input_me: "dominant (input_me d p) \<longleftrightarrow> in_pressing d"
  by (simp add: input_me_def dominant_def Let_def)

lemma dominant_input_other: "dominant (input_other d p) \<longleftrightarrow> \<not> in_pressing d \<and> dominant p"
  by (simp add: input_other_def dominant_def)

lemma dominant_apply_input_pressing:
  "in_pressing d \<Longrightarrow>
   filter dominant (map snd (apply_input sid d ps)) =
   map snd (filter (\<lambda>kv. fst kv = sid) (apply_input sid d ps))"
  unfolding apply_input_eq
  by (induction ps) (auto simp: dominant_input_me dominant_input_other split: if_splits)

lemma length_filter_key: "distinct (map fst ps) \<Longrightarrow> length (filter (\<lambda>kv. fst kv = k) ps) \<le> 1"
  by (induction ps) (auto simp: filter_empty_conv rev_image_eqI)

lemma dominant_apply_input_released:
  "\<not> in_pressing d \<Longrightarrow>
   length (filter dominant (map snd (apply_input sid d ps))) \<le> length (filter dominant (map snd ps))"
  unfolding apply_input_eq
  by (induction ps) (auto simp: dominant_input_me dominant_input_other split: if_splits)

lemma z_move_clamp: "z (move_clamp rm p) = z p"
  by (simp add: move_clamp_def)

lemma map_z_tick_players: "map z (tick_players rm ps) = map z ps"
proof (rule nth_equalityI)
  show "length (map z (tick_players rm ps)) = length (map z ps)"
    by (simp add: length_tick_players)
next
  fix i assume "i < length (map z (tick_players rm ps))"
  then have i: "i < length ps" by (simp add: length_tick_players)
  then show "map z (tick_players rm ps) ! i = map z ps ! i"
    by (simp add: length_pin_logic tick_players_def pin_logic_nth z_move_clamp)
qed

lemma filter_dominant_map_z: "length (filter dominant ps) = length (filter (\<lambda>n. 0 < n) (map z ps))"
  by (simp add: filter_map comp_def dominant_def [abs_def])

lemma dominant_tick_players:
  "length (filter dominant (tick_players rm ps)) = length (filter dominant ps)"
  by (simp add: filter_dominant_map_z map_z_tick_players)

lemma dom_ok_newRoom: "dom_ok newRoom"
  by (simp add: dom_ok_def newRoom_def obj_values_def)

lemma dom_ok_join_room: "dom_ok rm \<Longrightarrow> dom_ok (join_room sid r d rm)"
proof -
  assume a: "dom_ok rm"
  define me where "me = \<lparr> id_p = sid, role = r, x = spawn_x rm r, y = spawn_y rm r,
                vx = 0, vy = 0, pressing = False, pinTimer = 0,
                thumbFile = pick_thumbFile d, z = 0 \<rparr>"
  have "\<not> dominant me" by (simp add: me_def dominant_def)
  then have "length (filter dominant (map snd (obj_set sid me (players rm)))) \<le> 1"
    using dominant_obj_set [of me sid "players rm"] a by (simp add: dom_ok_def obj_values_def)
  moreover have "distinct (map fst (obj_set sid me (players rm)))"
    using a by (simp add: dom_ok_def distinct_obj_set)
  ultimately show ?thesis
    by (simp add: dom_ok_def join_room_def Let_def me_def [symmetric] obj_values_def)
qed

lemma dom_ok_input_room: "dom_ok rm \<Longrightarrow> dom_ok (input_room sid d rm)"
proof -
  assume a: "dom_ok rm"
  have "length (filter dominant (map snd (apply_input sid d (players rm)))) \<le> 1"
  proof (cases "in_pressing d")
    case True
    have "distinct (map fst (apply_input sid d (players rm)))"
      using a by (simp add: map_fst_apply_input dom_ok_def)
    then show ?thesis
      using length_filter_key by (simp add: dominant_apply_input_pressing [OF True])
  next
    case False
    then show ?thesis
      using dominant_apply_input_released [OF False, of sid "players rm"] a
      by (simp add: dom_ok_def obj_values_def)
  qed
  then show ?thesis using a
    by (simp add: dom_ok_def input_room_def map_fst_apply_input obj_values_def)
qed

lemma length_filter_map_snd_filter:
  "length (filter P (map snd (filter Q ps))) \<le> length (filter P (map snd ps))"
  by (induction ps) auto

lemma dom_ok_leave_room: "dom_ok rm \<Longrightarrow> dom_ok (leave_room sid rm)"
proof -
  assume a: "dom_ok rm"
  have "length (filter dominant (map snd (obj_delete sid (players rm))))
        \<le> length (filter dominant (map snd (players rm)))"
    unfolding obj_delete_def by (rule length_filter_map_snd_filter)
  moreover have "distinct (map fst (obj_delete sid (players rm)))"
    using a by (simp add: dom_ok_def obj_delete_def distinct_map_filter)
  ultimately show ?thesis using a
    by (simp add: dom_ok_def leave_room_def Let_def obj_values_def)
qed

lemma dom_ok_tick_room: "dom_ok rm \<Longrightarrow> dom_ok (tick_room rm)"
proof -
  assume a: "dom_ok rm"
  have l: "length (map fst (players rm)) = length (tick_players rm (obj_values (players rm)))"
    by (simp add: length_tick_players obj_values_def)
  have "map fst (players (tick_room rm)) = map fst (players rm)"
    and "map snd (players (tick_room rm)) = tick_players rm (obj_values (players rm))"
    using l by (simp_all add: players_tick_room)
  then show ?thesis using a
    by (simp add: dom_ok_def obj_values_def dominant_tick_players)
qed

lemma input_registered:
  assumes "roomId s sid = Some c" and "c \<noteq> []" and "rooms s c = Some rm"
    and "obj_get (players rm) sid = Some me" and "winner rm = None"
  shows "rooms (input sid d s) c = Some (input_room sid d rm)"
    and "obj_get (players (input_room sid d rm)) sid = Some (input_me d me)"
    and "\<And>k p. k \<noteq> sid \<Longrightarrow> obj_get (players (input_room sid d rm)) k = Some p \<Longrightarrow>
           \<exists>q. obj_get (players rm) k = Some q \<and> p = input_other d q"
  using assms by (auto simp: input_def input_room_def obj_get_apply_input)

lemma server_ab_a:
  "roomId server_ab ''a'' = Some ''A''" "rooms server_ab ''A'' = Some room_ab"
  "obj_get (players room_ab) ''a'' = Some player_a" "winner room_ab = None"
  by (simp_all add: server_ab_def room_ab_def)

text \<open>
  Claim C7. In every state the server reaches, every room has at most one player whose
  dominant flag is set, and every event keeps it so. An input of a registered player in a
  room without a winner leaves the sender dominant exactly when it is acting; when it is
  acting, no other player of the room is dominant afterwards.
\<close>

theorem one_dominant:
  "all_rooms dom_ok (run init evs) \<and>
   (all_rooms dom_ok s \<longrightarrow> all_rooms dom_ok (step s e)) \<and>
   (roomId s sid = Some c \<and> c \<noteq> [] \<and> rooms s c = Some rm \<and>
    obj_get (players rm) sid = Some me \<and> winner rm = None \<longrightarrow>
      (\<exists>rm' me'. rooms (input sid d s) c = Some rm' \<and> obj_get (players rm') sid = Some me' \<and>
         (dominant me' \<longleftrightarrow> in_pressing d) \<and>
         (in_pressing d \<longrightarrow>
            (\<forall>k p. k \<noteq> sid \<and> obj_get (players rm') k = Some p \<longrightarrow> \<not> dominant p))))"
proof (intro conjI impI)
  show "all_rooms dom_ok (run init evs)"
    by (rule run_all_rooms [where P = dom_ok, OF all_rooms_init dom_ok_newRoom])
      (simp_all add: dom_ok_join_room dom_ok_input_room dom_ok_leave_room dom_ok_tick_room)
next
  assume "all_rooms dom_ok s"
  then show "all_rooms dom_ok (step s e)"
    by (rule step_all_rooms [where P = dom_ok, OF _ dom_ok_newRoom])
      (simp_all add: dom_ok_join_room dom_ok_input_room dom_ok_leave_room dom_ok_tick_room)
next
  assume a: "roomId s sid = Some c \<and> c \<noteq> [] \<and> rooms s c = Some rm \<and>
    obj_get (players rm) sid = Some me \<and> winner rm = None"
  then have a1: "roomId s sid = Some c" and a2: "c \<noteq> []" and a3: "rooms s c = Some rm"
    and a4: "obj_get (players rm) sid = Some me" and a5: "winner rm = None"
    by simp_all
  note ir = input_registered [OF a1 a2 a3 a4 a5]
  have r: "rooms (input sid d s) c = Some (input_room sid d rm)"
    and m: "obj_get (players (input_room sid d rm)) sid = Some (input_me d me)"
    by (rule ir)+
  have o: "\<And>k p. k \<noteq> sid \<Longrightarrow> obj_get (players (input_room sid d rm)) k = Some p \<Longrightarrow>
           \<exists>q. obj_get (players rm) k = Some q \<and> p = input_other d q"
    by (rule ir(3))
  have "in_pressing d \<longrightarrow>
     (\<forall>k p. k \<noteq> sid \<and> obj_get (players (input_room sid d rm)) k = Some p \<longrightarrow> \<not> dominant p)"
  proof (intro impI allI)
    fix k p
    assume pr: "in_pressing d" and kp: "k \<noteq> sid \<and> obj_get (players (input_room sid d rm)) k = Some p"
    then obtain q where "p = input_other d q" using o by blast
    then show "\<not> dominant p" using pr by (simp add: dominant_input_other)
  qed
  with r m show "\<exists>rm' me'. rooms (input sid d s) c = Some rm' \<and>
      obj_get (players rm') sid = Some me' \<and> (dominant me' \<longleftrightarrow> in_pressing d) \<and>
      (in_pressing d \<longrightarrow>
         (\<forall>k p. k \<noteq> sid \<and> obj_get (players rm') k = Some p \<longrightarrow> \<not> dominant p))"
    using dominant_input_me [of d me] by blast
qed

theorem one_dominant_witness:
  "length (filter dominant (obj_values (players room_ab))) \<le> 1 \<and>
   (\<exists>rm' me'. rooms (input ''a'' press_right server_ab) ''A'' = Some rm' \<and>
       obj_get (players rm') ''a'' = Some me' \<and> dominant me' \<and>
       length (filter dominant (obj_values (players rm'))) \<le> 1)"
proof -
  note t = one_dominant [where evs = two_joins and s = server_ab and e = "Input ''a'' press_right"
      and sid = "''a''" and c = "''A''" and rm = room_ab and me = player_a and d = press_right]
  have p: "in_pressing press_right" by (simp add: press_right_def)
  from t have "all_rooms dom_ok server_ab" by (simp add: run_two_joins)
  then have 1: "dom_ok room_ab" using server_ab_a(2) by (simp add: all_rooms_def)
  from t \<open>all_rooms dom_ok server_ab\<close> have 2: "all_rooms dom_ok (input ''a'' press_right server_ab)"
    by simp
  from t obtain rm' me' where 3: "rooms (input ''a'' press_right server_ab) ''A'' = Some rm'"
    "obj_get (players rm') ''a'' = Some me'" "dominant me'"
    using server_ab_a p by auto
  from 2 3(1) have "dom_ok rm'" by (simp add: all_rooms_def)
  with 1 3 show ?thesis by (auto simp: dom_ok_def)
qed

lemma hypot_scaled:
  assumes "h = hypot a b" and "h \<noteq> 0" and "0 \<le> s"
  shows "hypot (a / h * s) (b / h * s) = s"
proof -
  have nn: "0 \<le> a * a + b * b" by simp
  have hh: "h * h = a * a + b * b"
    using assms(1) nn by (simp add: hypot_def)
  have "(a / h * s) * (a / h * s) + (b / h * s) * (b / h * s) = ((a * a + b * b) * (s * s)) / (h * h)"
    using assms(2) by (simp add: field_simps)
  also have "\<dots> = ((h * h) * (s * s)) / (h * h)" by (simp only: hh)
  also have "\<dots> = s * s" using assms(2) by simp
  finally show ?thesis using assms(3) by (simp add: hypot_def)
qed

lemma mag_nonzero: "mag d \<noteq> 0"
  by (simp add: mag_def Let_def)

lemma velocity_value:
  "velocity d = Some ((b2r (right d) - b2r (left d)) / mag d * speed,
                      (b2r (down d) - b2r (up d)) / mag d * speed)"
  by (simp add: velocity_def js_div_def mag_nonzero)

lemma input_me_velocity: "velocity d = Some (vx (input_me d p), vy (input_me d p))"
  by (simp add: input_me_def velocity_value)

text \<open>
  Claim C9. An input of a registered player in a room without a winner stores the velocity
  that the handler computes, and every quotient of that computation is a number: the
  divisor \<open>mag\<close> is never zero. When the direction (right - left, down - up) is the zero
  vector the divisor is 1 and the stored velocity is exactly (0, 0); otherwise the divisor
  is the Euclidean length of the direction and the stored velocity is the direction
  divided by it and multiplied by the speed constant 3.2, a velocity of length 3.2.
\<close>

theorem input_velocity:
  assumes "roomId s sid = Some c" and "c \<noteq> []" and "rooms s c = Some rm"
    and "obj_get (players rm) sid = Some me" and "winner rm = None"
  shows "\<exists>rm' me'. rooms (input sid d s) c = Some rm' \<and> obj_get (players rm') sid = Some me' \<and>
     velocity d = Some (vx me', vy me') \<and> mag d \<noteq> 0 \<and>
     js_div (b2r (right d) - b2r (left d)) (mag d) \<noteq> None \<and>
     js_div (b2r (down d) - b2r (up d)) (mag d) \<noteq> None \<and>
     (let dx = b2r (right d) - b2r (left d); dy = b2r (down d) - b2r (up d) in
      if dx = 0 \<and> dy = 0 then mag d = 1 \<and> vx me' = 0 \<and> vy me' = 0
      else mag d = hypot dx dy \<and> vx me' = dx / hypot dx dy * speed \<and>
           vy me' = dy / hypot dx dy * speed \<and> hypot (vx me') (vy me') = speed)"
proof -
  define dx where "dx = b2r (right d) - b2r (left d)"
  define dy where "dy = b2r (down d) - b2r (up d)"
  have m: "mag d = (if hypot dx dy = 0 then 1 else hypot dx dy)"
    by (simp add: mag_def Let_def dx_def dy_def)
  have v: "vx (input_me d me) = dx / mag d * speed" "vy (input_me d me) = dy / mag d * speed"
    by (simp_all add: input_me_def velocity_value dx_def dy_def)
  have q: "js_div dx (mag d) \<noteq> None" "js_div dy (mag d) \<noteq> None"
    by (simp_all add: js_div_def mag_nonzero)
  have main: "if dx = 0 \<and> dy = 0
        then mag d = 1 \<and> vx (input_me d me) = 0 \<and> vy (input_me d me) = 0
        else mag d = hypot dx dy \<and> vx (input_me d me) = dx / hypot dx dy * speed \<and>
             vy (input_me d me) = dy / hypot dx dy * speed \<and>
             hypot (vx (input_me d me)) (vy (input_me d me)) = speed"
  proof (cases "dx = 0 \<and> dy = 0")
    case True
    then have "hypot dx dy = 0" by (simp add: hypot_eq_0_iff)
    with m have m1: "mag d = 1" by simp
    show ?thesis unfolding if_P [OF True] using True v m1 by simp
  next
    case False
    then have h: "hypot dx dy \<noteq> 0" by (simp add: hypot_eq_0_iff)
    with m have mh: "mag d = hypot dx dy" by simp
    have "hypot (dx / hypot dx dy * speed) (dy / hypot dx dy * speed) = speed"
      by (rule hypot_scaled [OF refl h]) (simp add: speed_def)
    then show ?thesis unfolding if_not_P [OF False] using v mh by simp
  qed
  show ?thesis
    unfolding Let_def dx_def [symmetric] dy_def [symmetric]
    using input_registered(1,2) [OF assms, of d] input_me_velocity [of d me] mag_nonzero [of d]
      q main
    by blast
qed

theorem input_velocity_witness:
  "(\<exists>rm' me'. rooms (input ''a'' press_right server_ab) ''A'' = Some rm' \<and>
      obj_get (players rm') ''a'' = Some me' \<and> vx me' = 3.2 \<and> vy me' = 0) \<and>
   (\<exists>rm' me'. rooms (input ''a'' release_all server_ab) ''A'' = Some rm' \<and>
      obj_get (players rm') ''a'' = Some me' \<and> vx me' = 0 \<and> vy me' = 0 \<and> mag release_all = 1)"
proof -
  have "b2r (right press_right) - b2r (left press_right) = 1"
    "b2r (down press_right) - b2r (up press_right) = 0"
    by (simp_all add: press_right_def b2r_def)
  then have 1: "\<exists>rm' me'. rooms (input ''a'' press_right server_ab) ''A'' = Some rm' \<and>
      obj_get (players rm') ''a'' = Some me' \<and> vx me' = 3.2 \<and> vy me' = 0"
    using input_velocity [OF server_ab_a(1) _ server_ab_a(2,3,4), of press_right]
    by (auto simp: Let_def hypot_0_right speed_def)
  have "b2r (right release_all) - b2r (left release_all) = 0"
    "b2r (down release_all) - b2r (up release_all) = 0"
    by (simp_all add: release_all_def b2r_def)
  then have 2: "\<exists>rm' me'. rooms (input ''a'' release_all server_ab) ''A'' = Some rm' \<and>
      obj_get (players rm') ''a'' = Some me' \<and> vx me' = 0 \<and> vy me' = 0 \<and> mag release_all = 1"
    using input_velocity [OF server_ab_a(1) _ server_ab_a(2,3,4), of release_all]
    by (auto simp: Let_def)
  from 1 2 show ?thesis by simp
qed

section \<open>The pairwise pin rule\<close>






section \<open>The arena\<close>

lemma config_ok_run: "all_rooms config_ok (run init evs)"
proof (rule run_all_rooms [where P = config_ok, OF all_rooms_init])
  show "config_ok newRoom" by (simp add: config_ok_def newRoom_def)
next
  fix sid r d rm assume "config_ok rm"
  then show "config_ok (join_room sid r d rm)" by (simp add: config_ok_def join_room_def Let_def)
next
  fix sid d rm assume "config_ok rm"
  then show "config_ok (input_room sid d rm)" by (simp add: config_ok_def input_room_def)
next
  fix sid rm assume "config_ok rm"
  then show "config_ok (leave_room sid rm)" by (simp add: config_ok_def leave_room_def Let_def)
next
  fix rm assume "config_ok rm"
  then show "config_ok (tick_room rm)"
    by (simp add: config_ok_def tick_room_def Let_def split: option.splits)
qed

lemma tickRoom_room:
  assumes "rooms s c = Some rm" and "2 \<le> length (players rm)"
  shows "rooms (tickRoom c s) c = Some (tick_room rm)"
  using assms by (simp add: tickRoom_def obj_values_def)

lemma tick_players_position:
  assumes "k < length ps"
  shows "x (tick_players rm ps ! k) = x (move_clamp rm (ps ! k))"
    and "y (tick_players rm ps ! k) = y (move_clamp rm (ps ! k))"
  using assms by (simp_all add: tick_players_def pin_logic_nth)

lemma tick_room_position:
  assumes "k < length (players rm)"
  shows "x (obj_values (players (tick_room rm)) ! k) =
           max (radius rm) (min (width rm - radius rm)
             (x (obj_values (players rm) ! k) + vx (obj_values (players rm) ! k)))"
    and "y (obj_values (players (tick_room rm)) ! k) =
           max (radius rm) (min (height rm - radius rm)
             (y (obj_values (players rm) ! k) + vy (obj_values (players rm) ! k)))"
proof -
  have v: "obj_values (players (tick_room rm)) = tick_players rm (obj_values (players rm))"
    by (simp add: players_tick_room obj_values_def length_tick_players)
  have k: "k < length (obj_values (players rm))" using assms by (simp add: obj_values_def)
  show "x (obj_values (players (tick_room rm)) ! k) =
           max (radius rm) (min (width rm - radius rm)
             (x (obj_values (players rm) ! k) + vx (obj_values (players rm) ! k)))"
    unfolding v tick_players_position(1) [OF k] by (simp add: move_clamp_def)
  show "y (obj_values (players (tick_room rm)) ! k) =
           max (radius rm) (min (height rm - radius rm)
             (y (obj_values (players rm) ! k) + vy (obj_values (players rm) ! k)))"
    unfolding v tick_players_position(2) [OF k] by (simp add: move_clamp_def)
qed

text \<open>
  Claim C6. Every room the server reaches has the configuration it was created with, and a
  simulation step of a room with two players or more replaces the room by \<open>tick_room\<close> of
  it. In such a step of a room with that configuration, whatever the positions and
  velocities of its players before, every player ends with \<open>x\<close> in [radius, width - radius]
  and \<open>y\<close> in [radius, height - radius]: a coordinate that position plus velocity carries
  to or past a bound ends exactly on that bound, and one that stays between the bounds
  ends at position plus velocity.
\<close>

theorem clamp_bounds:
  "(rooms (run init evs) c = Some rm0 \<longrightarrow> config_ok rm0) \<and>
   (rooms s c = Some rm \<and> 2 \<le> length (players rm) \<longrightarrow>
      rooms (tickRoom c s) c = Some (tick_room rm)) \<and>
   (config_ok rm \<and> k < length (players rm) \<longrightarrow>
      length (players (tick_room rm)) = length (players rm) \<and>
      (let p = obj_values (players rm) ! k; p' = obj_values (players (tick_room rm)) ! k in
         radius rm \<le> x p' \<and> x p' \<le> width rm - radius rm \<and>
         radius rm \<le> y p' \<and> y p' \<le> height rm - radius rm \<and>
         (width rm - radius rm \<le> x p + vx p \<longrightarrow> x p' = width rm - radius rm) \<and>
         (x p + vx p \<le> radius rm \<longrightarrow> x p' = radius rm) \<and>
         (radius rm \<le> x p + vx p \<and> x p + vx p \<le> width rm - radius rm \<longrightarrow> x p' = x p + vx p) \<and>
         (height rm - radius rm \<le> y p + vy p \<longrightarrow> y p' = height rm - radius rm) \<and>
         (y p + vy p \<le> radius rm \<longrightarrow> y p' = radius rm) \<and>
         (radius rm \<le> y p + vy p \<and> y p + vy p \<le> height rm - radius rm \<longrightarrow> y p' = y p + vy p)))"
proof (intro conjI impI)
  assume "rooms (run init evs) c = Some rm0"
  then show "config_ok rm0" using config_ok_run [of evs] by (simp add: all_rooms_def)
next
  assume "rooms s c = Some rm \<and> 2 \<le> length (players rm)"
  then show "rooms (tickRoom c s) c = Some (tick_room rm)" by (simp add: tickRoom_room)
next
  assume a: "config_ok rm \<and> k < length (players rm)"
  show "length (players (tick_room rm)) = length (players rm)"
    by (rule length_players_tick_room)
  from a have k: "k < length (players rm)" by simp
  from a have cf: "width rm = 800" "height rm = 500" "radius rm = 30"
    by (simp_all add: config_ok_def)
  show "let p = obj_values (players rm) ! k; p' = obj_values (players (tick_room rm)) ! k in
         radius rm \<le> x p' \<and> x p' \<le> width rm - radius rm \<and>
         radius rm \<le> y p' \<and> y p' \<le> height rm - radius rm \<and>
         (width rm - radius rm \<le> x p + vx p \<longrightarrow> x p' = width rm - radius rm) \<and>
         (x p + vx p \<le> radius rm \<longrightarrow> x p' = radius rm) \<and>
         (radius rm \<le> x p + vx p \<and> x p + vx p \<le> width rm - radius rm \<longrightarrow> x p' = x p + vx p) \<and>
         (height rm - radius rm \<le> y p + vy p \<longrightarrow> y p' = height rm - radius rm) \<and>
         (y p + vy p \<le> radius rm \<longrightarrow> y p' = radius rm) \<and>
         (radius rm \<le> y p + vy p \<and> y p + vy p \<le> height rm - radius rm \<longrightarrow> y p' = y p + vy p)"
    unfolding Let_def tick_room_position [OF k] cf by simp
qed

theorem clamp_bounds_witness:
  "rooms (run init two_joins) ''A'' = Some room_ab \<and> config_ok room_ab \<and>
   rooms (tickRoom ''A'' (run init two_joins)) ''A'' = Some (tick_room room_ab) \<and>
   config_ok room_edge \<and>
   x (obj_values (players (tick_room room_edge)) ! 0) = 770 \<and>
   y (obj_values (players (tick_room room_edge)) ! 0) = 30 \<and>
   x (obj_values (players (tick_room room_edge)) ! 1) = 403.2 \<and>
   y (obj_values (players (tick_room room_edge)) ! 1) = 250"
proof -
  have r: "rooms (run init two_joins) ''A'' = Some room_ab"
    by (simp add: run_two_joins server_ab_def)
  have l: "2 \<le> length (players room_ab)" by (simp add: room_ab_def)
  have cf: "config_ok room_edge" by (simp add: config_ok_def room_edge_def room_ab_def)
  have k: "0 < length (players room_edge)" "1 < length (players room_edge)"
    by (simp_all add: room_edge_def)
  have p: "obj_values (players room_edge) ! 0 = player_a\<lparr> x := 769, y := 31, vx := 3.2, vy := - 3.2 \<rparr>"
    "obj_values (players room_edge) ! Suc 0 = player_b\<lparr> vx := 3.2 \<rparr>"
    by (simp_all add: room_edge_def obj_values_def)
  have g: "width room_edge = 800" "height room_edge = 500" "radius room_edge = 30"
    by (simp_all add: room_edge_def room_ab_def)
  note t0 = clamp_bounds [where evs = two_joins and c = "''A''" and ?rm0.0 = room_ab
      and s = "run init two_joins" and rm = room_ab and k = 0]
  note t1 = clamp_bounds [where evs = two_joins and c = "''A''" and ?rm0.0 = room_ab
      and s = "run init two_joins" and rm = room_edge and k = 0]
  note t2 = clamp_bounds [where evs = two_joins and c = "''A''" and ?rm0.0 = room_ab
      and s = "run init two_joins" and rm = room_edge and k = 1]
  from t0 r l have 1: "config_ok room_ab"
    "rooms (tickRoom ''A'' (run init two_joins)) ''A'' = Some (tick_room room_ab)"
    by simp_all
  from t1 cf k(1) have 2: "x (obj_values (players (tick_room room_edge)) ! 0) = 770"
    "y (obj_values (players (tick_room room_edge)) ! 0) = 30"
    by (simp_all add: Let_def p g player_a_def)
  from t2 cf k(2) have 3: "x (obj_values (players (tick_room room_edge)) ! 1) = 403.2"
    "y (obj_values (players (tick_room room_edge)) ! 1) = 250"
    by (simp_all add: Let_def p g player_b_def)
  from r 1 cf 2 3 show ?thesis by simp
qed

section \<open>Joining\<close>

lemma obj_get_obj_set: "obj_get (obj_set k v ps) k = Some v"
  by (induction ps) auto

lemma players_join_room:
  "players (join_room sid r d rm) =
     obj_set sid \<lparr> id_p = sid, role = r, x = spawn_x rm r, y = spawn_y rm r,
                   vx = 0, vy = 0, pressing = False, pinTimer = 0,
                   thumbFile = pick_thumbFile d, z = 0 \<rparr> (players rm)"
  by (simp add: join_room_def Let_def)

lemma joinRoom_ok:
  assumes "joinRoom sid rid d s = (JoinOk r w h rad wps, s')"
  shows "\<exists>rm. rooms s' (normalize_rid rid) = Some (join_room sid r d rm)"
  using assms
  by (auto simp: joinRoom_def Let_def split: if_splits option.splits)

text \<open>
  Claim C10. After a successful join whose payload is absent, or has no \<open>thumbFile\<close>, or an
  empty one, the player registered for the connection has the avatar \<open>thumb1.png\<close>.
\<close>

theorem default_thumbFile:
  assumes "joinRoom sid rid d s = (JoinOk r w h rad wps, s')"
    and "d = None \<or> (\<exists>jd. d = Some jd \<and> (jd_thumbFile jd = None \<or> jd_thumbFile jd = Some []))"
  shows "\<exists>rm' me. rooms s' (normalize_rid rid) = Some rm' \<and> obj_get (players rm') sid = Some me \<and>
           thumbFile me = ''thumb1.png''"
proof -
  have "pick_thumbFile d = ''thumb1.png''"
    using assms(2) by (auto simp: pick_thumbFile_def)
  then show ?thesis
    using joinRoom_ok [OF assms(1)] by (auto simp: players_join_room obj_get_obj_set)
qed

theorem default_thumbFile_witness:
  "\<exists>rm' me. rooms (snd (joinRoom ''a'' (Some (STR ''A'')) (Some \<lparr> jd_thumbFile = Some [] \<rparr>) init)) ''A''
       = Some rm' \<and> obj_get (players rm') ''a'' = Some me \<and> thumbFile me = ''thumb1.png''"
proof -
  have j: "\<exists>s'. joinRoom ''a'' (Some (STR ''A'')) (Some \<lparr> jd_thumbFile = Some [] \<rparr>) init
      = (JoinOk P1 800 500 30 2, s')"
    by (simp add: join_simps init_def)
  then obtain s' where s': "joinRoom ''a'' (Some (STR ''A'')) (Some \<lparr> jd_thumbFile = Some [] \<rparr>) init
      = (JoinOk P1 800 500 30 2, s')" ..
  show ?thesis using default_thumbFile [OF s'] s' by (simp add: normalize_rid_A)
qed

lemma joinRoom_seat:
  assumes "normalize_rid rid = c" and "c \<noteq> []" and "length c \<le> 12"
    and "createRoomIfNeeded c (rooms s) c = Some rm" and "assignRole rm = Some r"
  shows "joinRoom sid rid d s =
     (JoinOk r (width rm) (height rm) (radius rm) (winPinSeconds rm),
      s\<lparr> roomId := (roomId s)(sid := Some c),
         rooms := (createRoomIfNeeded c (rooms s))(c := Some (join_room sid r d rm)) \<rparr>)"
  using assms by (simp add: joinRoom_def Let_def)

lemma joinRoom_full:
  assumes "normalize_rid rid = c" and "c \<noteq> []" and "length c \<le> 12"
    and "rooms s c = Some rm" and "assignRole rm = None"
  shows "joinRoom sid rid d s =
     (JoinError ''Room is full'', s\<lparr> roomId := (roomId s)(sid := Some c) \<rparr>)"
  using assms by (simp add: joinRoom_def Let_def createRoomIfNeeded_def)

lemma config_join_room:
  "width (join_room sid r d rm) = width rm" "height (join_room sid r d rm) = height rm"
  "radius (join_room sid r d rm) = radius rm" "winPinSeconds (join_room sid r d rm) = winPinSeconds rm"
  by (simp_all add: join_room_def Let_def)

lemma createRoomIfNeeded_present: "rs c = Some rm \<Longrightarrow> createRoomIfNeeded c rs = rs"
  by (simp add: createRoomIfNeeded_def)

text \<open>
  Claim C5. In a room that is absent or has no players, three joins in a row by three
  different connections are acknowledged with the seats P1, P2 and P3 in this order; a
  fourth join, by any connection, is then answered "Room is full" and leaves the map of
  rooms as it was, the room holding the three players.
\<close>

theorem three_seats:
  assumes n: "normalize_rid rid = c" and v: "c \<noteq> []" "length c \<le> 12"
    and e: "rooms s c = None \<or> (\<exists>rm. rooms s c = Some rm \<and> players rm = [])"
    and d: "distinct [a1, a2, a3]"
  shows "\<exists>w h r t s1 s2 s3 s4 rm3.
      joinRoom a1 rid d1 s = (JoinOk P1 w h r t, s1) \<and>
      joinRoom a2 rid d2 s1 = (JoinOk P2 w h r t, s2) \<and>
      joinRoom a3 rid d3 s2 = (JoinOk P3 w h r t, s3) \<and>
      joinRoom a4 rid d4 s3 = (JoinError ''Room is full'', s4) \<and>
      rooms s3 c = Some rm3 \<and> map fst (players rm3) = [a1, a2, a3] \<and>
      map role (obj_values (players rm3)) = [P1, P2, P3] \<and>
      rooms s4 = rooms s3"
proof -
  obtain rm0 where c0: "createRoomIfNeeded c (rooms s) c = Some rm0" and p0: "players rm0 = []"
    using e by (auto simp: createRoomIfNeeded_def newRoom_def)
  define rm1 where "rm1 = join_room a1 P1 d1 rm0"
  define rm2 where "rm2 = join_room a2 P2 d2 rm1"
  define rm3 where "rm3 = join_room a3 P3 d3 rm2"
  have r0: "assignRole rm0 = Some P1" using p0 by (simp add: assignRole_def obj_values_def)
  have p1: "map fst (players rm1) = [a1]" "map role (obj_values (players rm1)) = [P1]"
    using p0 by (simp_all add: rm1_def players_join_room obj_values_def)
  have r1: "assignRole rm1 = Some P2" using p1 by (simp add: assignRole_def Let_def)
  have p2: "map fst (players rm2) = [a1, a2]" "map role (obj_values (players rm2)) = [P1, P2]"
    using p1 d by (auto simp: rm2_def players_join_room obj_values_def
        Cons_eq_map_conv)
  have r2: "assignRole rm2 = Some P3" using p2 by (simp add: assignRole_def Let_def)
  have p3: "map fst (players rm3) = [a1, a2, a3]" "map role (obj_values (players rm3)) = [P1, P2, P3]"
    using p2 d by (auto simp: rm3_def players_join_room obj_values_def
        Cons_eq_map_conv)
  have r3: "assignRole rm3 = None" using p3 by (simp add: assignRole_def Let_def)
  define s1 where "s1 = snd (joinRoom a1 rid d1 s)"
  define s2 where "s2 = snd (joinRoom a2 rid d2 s1)"
  define s3 where "s3 = snd (joinRoom a3 rid d3 s2)"
  define s4 where "s4 = snd (joinRoom a4 rid d4 s3)"
  have j1: "joinRoom a1 rid d1 s = (JoinOk P1 (width rm0) (height rm0) (radius rm0) (winPinSeconds rm0), s1)"
    and q1: "rooms s1 c = Some rm1"
    unfolding s1_def by (simp_all add: joinRoom_seat [OF n v c0 r0] rm1_def)
  have c1: "createRoomIfNeeded c (rooms s1) c = Some rm1"
    using q1 by (simp add: createRoomIfNeeded_present)
  have j2: "joinRoom a2 rid d2 s1 = (JoinOk P2 (width rm0) (height rm0) (radius rm0) (winPinSeconds rm0), s2)"
    and q2: "rooms s2 c = Some rm2"
    unfolding s2_def by (simp_all add: joinRoom_seat [OF n v c1 r1] rm2_def rm1_def config_join_room)
  have c2: "createRoomIfNeeded c (rooms s2) c = Some rm2"
    using q2 by (simp add: createRoomIfNeeded_present)
  have j3: "joinRoom a3 rid d3 s2 = (JoinOk P3 (width rm0) (height rm0) (radius rm0) (winPinSeconds rm0), s3)"
    and q3: "rooms s3 c = Some rm3"
    unfolding s3_def
    by (simp_all add: joinRoom_seat [OF n v c2 r2] rm3_def rm2_def rm1_def config_join_room)
  have j4: "joinRoom a4 rid d4 s3 = (JoinError ''Room is full'', s4)" and q4: "rooms s4 = rooms s3"
    unfolding s4_def by (simp_all add: joinRoom_full [OF n v q3 r3])
  show ?thesis
    by (intro exI conjI) (rule j1 j2 j3 j4 q3 p3 q4)+
qed

theorem three_seats_witness:
  "\<exists>s1 s2 s3 s4 rm3.
      joinRoom ''a'' (Some (STR ''A'')) None init = (JoinOk P1 800 500 30 2, s1) \<and>
      joinRoom ''b'' (Some (STR ''A'')) None s1 = (JoinOk P2 800 500 30 2, s2) \<and>
      joinRoom ''c'' (Some (STR ''A'')) None s2 = (JoinOk P3 800 500 30 2, s3) \<and>
      joinRoom ''d'' (Some (STR ''A'')) None s3 = (JoinError ''Room is full'', s4) \<and>
      rooms s3 ''A'' = Some rm3 \<and> map fst (players rm3) = [''a'', ''b'', ''c''] \<and>
      map role (obj_values (players rm3)) = [P1, P2, P3] \<and> rooms s4 = rooms s3"
proof -
  have i: "rooms init ''A'' = None \<or> (\<exists>rm. rooms init ''A'' = Some rm \<and> players rm = [])"
    by (simp add: init_def)
  have d: "distinct [''a'', ''b'', ''c'']" by simp
  have v: "''A'' \<noteq> []" "length ''A'' \<le> 12" by simp_all
  obtain w h r t s1 s2 s3 s4 rm3 where
    j1: "joinRoom ''a'' (Some (STR ''A'')) None init = (JoinOk P1 w h r t, s1)"
    and j2: "joinRoom ''b'' (Some (STR ''A'')) None s1 = (JoinOk P2 w h r t, s2)"
    and j3: "joinRoom ''c'' (Some (STR ''A'')) None s2 = (JoinOk P3 w h r t, s3)"
    and j4: "joinRoom ''d'' (Some (STR ''A'')) None s3 = (JoinError ''Room is full'', s4)"
    and q: "rooms s3 ''A'' = Some rm3" "map fst (players rm3) = [''a'', ''b'', ''c'']"
      "map role (obj_values (players rm3)) = [P1, P2, P3]" "rooms s4 = rooms s3"
    using three_seats [OF normalize_rid_A v i d, of None None None "''d''" None]
    by (elim exE conjE) (rule that, assumption+)
  have "fst (joinRoom ''a'' (Some (STR ''A'')) None init) = JoinOk P1 800 500 30 2"
    by (simp add: join_simps init_def)
  with j1 have c: "w = 800" "h = 500" "r = 30" "t = 2" by simp_all
  show ?thesis
    by (intro exI conjI) (rule j1 [unfolded c] j2 [unfolded c] j3 [unfolded c] j4 q)+
qed

lemma invalid_join_rejected:
  assumes "normalize_rid rid = [] \<or> 12 < length (normalize_rid rid)"
  shows "joinRoom sid rid d s =
     (JoinError ''Invalid room id'', s\<lparr> roomId := (roomId s)(sid := Some (normalize_rid rid)) \<rparr>)"
  using assms by (simp add: joinRoom_def Let_def)

text \<open>
  Claim C8, the rejection and what it leaves behind. Connection a sits in room A and
  sends a join with the empty room code. The join is answered "Invalid room id" and the
  map of rooms is unchanged, but the connection's \<open>roomId\<close> now is the empty string: its
  next input is dropped, and its disconnect leaves its player in room A.
\<close>

theorem invalid_join_unbinds:
  "fst (joinRoom ''a'' (Some (STR '''')) None server_ab) = JoinError ''Invalid room id'' \<and>
   rooms (snd (joinRoom ''a'' (Some (STR '''')) None server_ab)) = rooms server_ab \<and>
   roomId server_ab ''a'' = Some ''A'' \<and>
   roomId (snd (joinRoom ''a'' (Some (STR '''')) None server_ab)) ''a'' = Some [] \<and>
   rooms (input ''a'' press_right server_ab) ''A'' \<noteq> Some room_ab \<and>
   input ''a'' press_right (snd (joinRoom ''a'' (Some (STR '''')) None server_ab))
     = snd (joinRoom ''a'' (Some (STR '''')) None server_ab) \<and>
   (\<exists>rm. rooms (disconnect ''a'' server_ab) ''A'' = Some rm \<and> obj_get (players rm) ''a'' = None) \<and>
   rooms (disconnect ''a'' (snd (joinRoom ''a'' (Some (STR '''')) None server_ab))) ''A'' = Some room_ab"
proof -
  have n: "normalize_rid (Some (STR '''')) = []"
    by (simp add: normalize_rid_def toUpperCase_def trim_def zero_literal.rep_eq)
  have j: "joinRoom ''a'' (Some (STR '''')) None server_ab =
      (JoinError ''Invalid room id'', server_ab\<lparr> roomId := (roomId server_ab)(''a'' := Some []) \<rparr>)"
    by (simp add: joinRoom_def Let_def n)
  show ?thesis unfolding j
    by (simp add: server_ab_def room_ab_def input_def disconnect_def leave_room_def Let_def
        obj_delete_def input_room_def apply_input_def velocity_def mag_def js_div_def b2r_def
        hypot_0_right press_right_def player_a_def player_b_def)
qed

section \<open>A game in room A, step by step\<close>

lemma server_ab_srv: "server_ab = srv room_ab"
  by (simp add: server_ab_def srv_def)

lemma fire_srv:
  "interval rm = Some ''b'' \<Longrightarrow> 2 \<le> length (players rm) \<Longrightarrow>
   fire ''A'' (srv rm) = srv (tick_room rm)"
  by (simp add: fire_def tickRoom_def srv_def obj_values_def)

lemma input_srv:
  "obj_get (players rm) ''a'' = Some me \<Longrightarrow> winner rm = None \<Longrightarrow>
   input ''a'' d (srv rm) = srv (input_room ''a'' d rm)"
  by (simp add: input_def srv_def)

lemma run_append: "run s (xs @ ys) = run (run s xs) ys"
  by (simp add: run_def)

lemma run_Cons: "run s (e # es) = run (step s e) es"
  by (simp add: run_def)

lemma run_Nil: "run s [] = s"
  by (simp add: run_def)

text \<open>A family of rooms that the tick walks along: \<open>k\<close> ticks from \<open>R i\<close> lead to \<open>R (i + k)\<close>.\<close>

lemma run_ticks:
  assumes t: "\<And>i. i < n \<Longrightarrow> tick_room (R i) = R (Suc i)"
    and r: "\<And>i. i < n \<Longrightarrow> interval (R i) = Some ''b'' \<and> 2 \<le> length (players (R i))"
  shows "i + k \<le> n \<Longrightarrow> run (srv (R i)) (replicate k (Tick ''A'')) = srv (R (i + k))"
proof (induction k arbitrary: i)
  case 0
  then show ?case by (simp add: run_Nil)
next
  case (Suc k)
  then have i: "i < n" by simp
  have "run (srv (R i)) (replicate (Suc k) (Tick ''A'')) =
        run (fire ''A'' (srv (R i))) (replicate k (Tick ''A''))"
    by (simp add: run_Cons)
  also have "\<dots> = run (srv (R (Suc i))) (replicate k (Tick ''A''))"
    using r [OF i] t [OF i] by (simp add: fire_srv)
  also have "\<dots> = srv (R (Suc i + k))"
    using Suc.prems by (intro Suc.IH) simp
  finally show ?case by simp
qed

lemmas tick_simps = tick_room_def tick_players_def obj_values_def move_clamp_def pin_pair_def
  Let_def dt_def hypot_0_right room_ab_def player_a_def player_b_def

lemma tick_approach:
  assumes "30 \<le> xa + 3.2" and "xa + 3.2 \<le> 358"
  shows "tick_room (approach xa) = approach (xa + 3.2)"
  using assms unfolding approach_def by (simp add: tick_simps)

lemma tick_hold:
  assumes "0 \<le> t" and "t + 1 / 60 < 2"
  shows "tick_room (hold t) = hold (t + 1 / 60)"
  using assms unfolding hold_def by (simp add: tick_simps)

lemmas input_simps = input_room_def apply_input_def velocity_def mag_def js_div_def
  Let_def b2r_def speed_def hypot_0_right
  hypot_eq_0_iff room_ab_def player_a_def player_b_def

lemma replicate_snoc: "replicate (Suc n) e = replicate n e @ [e]"
  by (simp only: replicate_Suc replicate_append_same)

lemma run_approach: "run init approach_trace = srv room_contact"
proof -
  have 1: "run init two_joins = srv room_ab"
    by (simp add: run_two_joins server_ab_srv)
  have 2: "input ''a'' press_right (srv room_ab) = srv (approach 160)"
    by (simp add: input_srv [where me = player_a] approach_def press_right_def input_simps)
  have t: "\<And>i. i < 61 \<Longrightarrow>
      tick_room (approach (160 + 3.2 * real i)) = approach (160 + 3.2 * real (Suc i))"
  proof -
    fix i :: nat assume "i < 61"
    then have "real i \<le> 60" by simp
    then have "tick_room (approach (160 + 3.2 * real i)) = approach (160 + 3.2 * real i + 3.2)"
      by (intro tick_approach) simp_all
    moreover have "160 + 3.2 * real i + 3.2 = 160 + 3.2 * real (Suc i)"
      by (simp add: field_simps)
    ultimately show "tick_room (approach (160 + 3.2 * real i)) = approach (160 + 3.2 * real (Suc i))"
      by simp
  qed
  have 3: "run (srv (approach 160)) (replicate 61 (Tick ''A'')) = srv (approach 355.2)"
    using run_ticks [where R = "\<lambda>i. approach (160 + 3.2 * real i)" and n = 61 and i = 0 and k = 61,
        OF t]
    by (simp add: approach_def room_ab_def)
  have 4: "fire ''A'' (srv (approach 355.2)) = srv room_contact"
    by (simp add: fire_srv approach_def room_contact_def tick_simps)
  have "(62::nat) = Suc 61" by simp
  then have r: "replicate 62 (Tick ''A'') = replicate 61 (Tick ''A'') @ [Tick ''A'']"
    by (simp only: replicate_snoc)
  show ?thesis
    unfolding approach_trace_def
    by (simp only: r run_append run_Cons run_Nil step.simps 1 2 3 4)
qed

lemma run_hold:
  assumes "0 \<le> t0" and "t0 + real n / 60 < 2"
  shows "run (srv (hold t0)) (replicate n (Tick ''A'')) = srv (hold (t0 + real n / 60))"
proof -
  have t: "\<And>i. i < n \<Longrightarrow>
      tick_room (hold (t0 + real i / 60)) = hold (t0 + real (Suc i) / 60)"
  proof -
    fix i :: nat assume "i < n"
    then have "real (Suc i) \<le> real n" by simp
    then have "t0 + real (Suc i) / 60 \<le> t0 + real n / 60" by (simp add: divide_right_mono)
    then have "t0 + real i / 60 + 1 / 60 < 2" using assms(2) by (simp add: field_simps)
    moreover have "0 \<le> t0 + real i / 60" using assms(1) by simp
    ultimately have "tick_room (hold (t0 + real i / 60)) = hold (t0 + real i / 60 + 1 / 60)"
      by (intro tick_hold)
    moreover have "t0 + real i / 60 + 1 / 60 = t0 + real (Suc i) / 60"
      by (simp add: field_simps)
    ultimately show "tick_room (hold (t0 + real i / 60)) = hold (t0 + real (Suc i) / 60)"
      by simp
  qed
  show ?thesis
    using run_ticks [where R = "\<lambda>i. hold (t0 + real i / 60)" and n = n and i = 0 and k = n, OF t]
    by (simp add: hold_def room_ab_def)
qed

subsection \<open>A win, with the timer above the threshold\<close>

lemma run_over: "run init over_trace = srv room_over"
proof -
  have 0: "input ''a'' release_all (srv room_contact) =
      srv (room_ab\<lparr> players := [(''a'', player_a\<lparr> x := 358.4, pinTimer := 1 / 60 \<rparr>), (''b'', player_b)] \<rparr>)"
    by (simp add: input_srv [where me = "player_a\<lparr> x := 358.4, vx := 3.2, pressing := True,
          z := 1, pinTimer := 1 / 60 \<rparr>"] room_contact_def release_all_def input_simps)
  have 1: "fire ''A'' (srv (room_ab\<lparr> players := [(''a'', player_a\<lparr> x := 358.4, pinTimer := 1 / 60 \<rparr>),
        (''b'', player_b)] \<rparr>)) =
      srv (room_ab\<lparr> players := [(''a'', player_a\<lparr> x := 358.4, pinTimer := 1 / 120 \<rparr>), (''b'', player_b)] \<rparr>)"
    by (simp add: fire_srv tick_simps)
  have 2: "input ''a'' press_only
        (srv (room_ab\<lparr> players := [(''a'', player_a\<lparr> x := 358.4, pinTimer := 1 / 120 \<rparr>),
          (''b'', player_b)] \<rparr>)) = srv (hold (1 / 120))"
    by (simp add: input_srv [where me = "player_a\<lparr> x := 358.4, pinTimer := 1 / 120 \<rparr>"]
        hold_def press_only_def input_simps)
  have 3: "run (srv (hold (1 / 120))) (replicate 119 (Tick ''A'')) = srv (hold (1 / 120 + real 119 / 60))"
    by (rule run_hold) simp_all
  have 4: "fire ''A'' (srv (hold (1 / 120 + real 119 / 60))) = srv room_over"
    by (simp add: fire_srv hold_def room_over_def tick_simps)
  have "(120::nat) = Suc 119" by simp
  then have r: "replicate 120 (Tick ''A'') = replicate 119 (Tick ''A'') @ [Tick ''A'']"
    by (simp only: replicate_snoc)
  show ?thesis
    unfolding over_trace_def
    by (simp only: r run_append run_Cons run_Nil step.simps run_approach 0 1 2 3 4)
qed

section \<open>The range of the pin timer\<close>

lemma pin_step_nonneg: "0 \<le> t \<Longrightarrow> 0 \<le> pin_step rm p q t"
  by (simp add: pin_step_def dt_def)

lemma foldl_pin_step_nonneg: "0 \<le> t \<Longrightarrow> 0 \<le> foldl (\<lambda>t q. pin_step rm p q t) t qs"
  by (induction qs arbitrary: t) (simp_all add: pin_step_nonneg)

lemma pinTimer_move_clamp: "pinTimer (move_clamp rm p) = pinTimer p"
  by (simp add: move_clamp_def)

lemma tick_players_nonneg:
  assumes "\<forall>p \<in> set ps. 0 \<le> pinTimer p"
  shows "\<forall>p \<in> set (tick_players rm ps). 0 \<le> pinTimer p"
proof
  fix p assume "p \<in> set (tick_players rm ps)"
  then obtain i where i: "i < length ps" and p: "p = tick_players rm ps ! i"
    by (auto simp: in_set_conv_nth length_tick_players)
  have "0 \<le> pinTimer (ps ! i)" using assms i by simp
  then show "0 \<le> pinTimer p"
    using i unfolding p tick_players_def
    by (simp add: pin_logic_nth foldl_pin_step_nonneg pinTimer_move_clamp)
qed

lemma set_obj_set: "set (obj_set k v ps) \<subseteq> insert (k, v) (set ps)"
  by (induction ps) (auto split: if_splits)

lemma timer_ok_newRoom: "timer_ok newRoom"
  by (simp add: timer_ok_def newRoom_def obj_values_def)

lemma timer_ok_join_room: "timer_ok rm \<Longrightarrow> timer_ok (join_room sid r d rm)"
  using set_obj_set [of sid _ "players rm"]
  by (fastforce simp: timer_ok_def players_join_room obj_values_def)

lemma pinTimer_apply_input:
  "map (pinTimer \<circ> snd) (apply_input sid d ps) = map (pinTimer \<circ> snd) ps"
  unfolding apply_input_eq
  by (induction ps) (auto simp: input_me_def input_other_def split: option.splits)

lemma timer_ok_iff: "timer_ok rm \<longleftrightarrow> (\<forall>t \<in> set (map (pinTimer \<circ> snd) (players rm)). 0 \<le> t)"
  by (simp add: timer_ok_def obj_values_def)

lemma timer_ok_input_room: "timer_ok rm \<Longrightarrow> timer_ok (input_room sid d rm)"
proof -
  have "map (pinTimer \<circ> snd) (players (input_room sid d rm)) = map (pinTimer \<circ> snd) (players rm)"
    by (simp add: input_room_def pinTimer_apply_input)
  then show "timer_ok rm \<Longrightarrow> timer_ok (input_room sid d rm)"
    by (simp only: timer_ok_iff)
qed

lemma timer_ok_leave_room: "timer_ok rm \<Longrightarrow> timer_ok (leave_room sid rm)"
  by (auto simp: timer_ok_def leave_room_def Let_def obj_values_def obj_delete_def)

lemma timer_ok_tick_room: "timer_ok rm \<Longrightarrow> timer_ok (tick_room rm)"
proof -
  assume a: "timer_ok rm"
  have "map snd (players (tick_room rm)) = tick_players rm (obj_values (players rm))"
    by (simp add: players_tick_room obj_values_def length_tick_players)
  then show ?thesis
    using tick_players_nonneg [of "obj_values (players rm)" rm] a
    by (simp add: timer_ok_def obj_values_def)
qed

text \<open>
  Claim C2 as the code has it. In every state the server reaches, after any sequence of
  joins, inputs, disconnects and simulation steps, no player's pin timer is negative.
  The code has no upper clamp.
\<close>

theorem pinTimer_nonneg:
  assumes "rooms (run init evs) c = Some rm" and "p \<in> set (obj_values (players rm))"
  shows "0 \<le> pinTimer p"
proof -
  have "all_rooms timer_ok (run init evs)"
    by (rule run_all_rooms [where P = timer_ok, OF all_rooms_init timer_ok_newRoom])
      (simp_all add: timer_ok_join_room timer_ok_input_room timer_ok_leave_room timer_ok_tick_room)
  then show ?thesis using assms by (auto simp: all_rooms_def timer_ok_def)
qed

theorem pinTimer_nonneg_witness:
  "rooms (run init over_trace) ''A'' = Some room_over \<and>
   player_b \<in> set (obj_values (players room_over)) \<and> 0 \<le> pinTimer player_b"
proof -
  have r: "rooms (run init over_trace) ''A'' = Some room_over"
    by (simp add: run_over srv_def)
  have m: "player_b \<in> set (obj_values (players room_over))"
    by (simp add: room_over_def obj_values_def)
  from r m pinTimer_nonneg [OF r m] show ?thesis by simp
qed

text \<open>
  Claim C2 with its upper bound fails. In the run \<open>over_trace\<close> the timer of a stands at 239/120,
  below the threshold 2, before the last tick, and that tick adds \<open>dt\<close>: the room then holds
  a player whose timer, 241/120, exceeds \<open>winPinSeconds\<close>.
\<close>

theorem pinTimer_above_threshold:
  "rooms (run init over_trace) ''A'' = Some room_over \<and>
   map pinTimer (obj_values (players room_over)) = [241 / 120, 0] \<and>
   winPinSeconds room_over = 2 \<and>
   \<not> (\<forall>p \<in> set (obj_values (players room_over)).
         0 \<le> pinTimer p \<and> pinTimer p \<le> winPinSeconds room_over)"
  by (simp add: run_over srv_def room_over_def obj_values_def room_ab_def player_a_def player_b_def)

section \<open>Timers and the rooms they step\<close>

lemma run_heading: "run init (two_joins @ [Input ''a'' press_right]) = srv (approach 160)"
proof -
  have 1: "run init two_joins = srv room_ab"
    by (simp add: run_two_joins server_ab_srv)
  have 2: "input ''a'' press_right (srv room_ab) = srv (approach 160)"
    by (simp add: input_srv [where me = player_a] approach_def press_right_def input_simps)
  show ?thesis by (simp only: run_append run_Cons run_Nil step.simps 1 2)
qed

text \<open>
  Claim C4 fails on the code. Connections a and b join room A and a heads right; the join
  of b has started the timer of the room, whose callback reads the \<open>roomId\<close> of b. The
  timer steps the room: a moves from 160 to 163.2. If instead b now sends a join with the
  empty room code, the join is rejected, but the \<open>roomId\<close> of b is the empty string from
  then on: room A still has two players, no winner and its timer, and the callback of
  that timer calls \<open>tickRoom\<close> with the empty string, so the room is not stepped.
\<close>

theorem rejected_join_stalls_room:
  "rooms (run init (two_joins @ [Input ''a'' press_right, Tick ''A''])) ''A''
     = Some (approach (160 + 3.2)) \<and>
   fst (joinRoom ''b'' (Some (STR '''')) None (run init (two_joins @ [Input ''a'' press_right])))
     = JoinError ''Invalid room id'' \<and>
   rooms (run init (two_joins @ [Input ''a'' press_right, JoinRoom ''b'' (Some (STR '''')) None])) ''A''
     = Some (approach 160) \<and>
   length (players (approach 160)) = 2 \<and> winner (approach 160) = None \<and>
   interval (approach 160) = Some ''b'' \<and>
   roomId (run init (two_joins @ [Input ''a'' press_right, JoinRoom ''b'' (Some (STR '''')) None])) ''b''
     = Some [] \<and>
   run init (two_joins @ [Input ''a'' press_right, JoinRoom ''b'' (Some (STR '''')) None, Tick ''A''])
     = run init (two_joins @ [Input ''a'' press_right, JoinRoom ''b'' (Some (STR '''')) None])"
proof -
  have n: "normalize_rid (Some (STR '''')) = []"
    by (simp add: normalize_rid_def toUpperCase_def trim_def zero_literal.rep_eq)
  have j: "joinRoom ''b'' (Some (STR '''')) None (srv (approach 160)) =
      (JoinError ''Invalid room id'',
       (srv (approach 160))\<lparr> roomId := (roomId (srv (approach 160)))(''b'' := Some []) \<rparr>)"
    using invalid_join_rejected [of "Some (STR '''')" "''b''" None "srv (approach 160)"]
    by (simp add: n)
  have t: "tick_room (approach 160) = approach (160 + 3.2)"
    by (rule tick_approach) simp_all
  have i: "interval (approach 160) = Some ''b''" "length (players (approach 160)) = 2"
    "winner (approach 160) = None"
    by (simp_all add: approach_def room_ab_def)
  have 1: "run init (two_joins @ [Input ''a'' press_right, Tick ''A'']) = srv (approach (160 + 3.2))"
    using run_heading i by (simp add: run_append run_Cons run_Nil fire_srv t)
  have 2: "run init (two_joins @ [Input ''a'' press_right, JoinRoom ''b'' (Some (STR '''')) None])
      = (srv (approach 160))\<lparr> roomId := (roomId (srv (approach 160)))(''b'' := Some []) \<rparr>"
    using run_heading by (simp add: run_append run_Cons run_Nil j)
  have 3: "fire ''A'' ((srv (approach 160))\<lparr> roomId := (roomId (srv (approach 160)))(''b'' := Some []) \<rparr>)
      = (srv (approach 160))\<lparr> roomId := (roomId (srv (approach 160)))(''b'' := Some []) \<rparr>"
    using i by (simp add: fire_def tickRoom_def srv_def)
  have 4: "run init (two_joins @ [Input ''a'' press_right, JoinRoom ''b'' (Some (STR '''')) None, Tick ''A''])
      = fire ''A'' (run init (two_joins @ [Input ''a'' press_right, JoinRoom ''b'' (Some (STR '''')) None]))"
    by (simp add: run_def)
  have 5: "rooms (run init (two_joins @ [Input ''a'' press_right, JoinRoom ''b'' (Some (STR '''')) None])) ''A''
      = Some (approach 160)"
    "roomId (run init (two_joins @ [Input ''a'' press_right, JoinRoom ''b'' (Some (STR '''')) None])) ''b''
      = Some []"
    unfolding 2 by (simp_all add: srv_def)
  have 6: "rooms (run init (two_joins @ [Input ''a'' press_right, Tick ''A''])) ''A''
      = Some (approach (160 + 3.2))"
    unfolding 1 by (simp add: srv_def)
  have 7: "fst (joinRoom ''b'' (Some (STR '''')) None (run init (two_joins @ [Input ''a'' press_right])))
      = JoinError ''Invalid room id''"
    unfolding run_heading j by simp
  have 8: "run init (two_joins @ [Input ''a'' press_right, JoinRoom ''b'' (Some (STR '''')) None, Tick ''A''])
      = run init (two_joins @ [Input ''a'' press_right, JoinRoom ''b'' (Some (STR '''')) None])"
    unfolding 4 unfolding 2 by (rule 3)
  from 6 7 5 i 8 show ?thesis by simp
qed

subsection \<open>After a win\<close>

lemma joinRoom_other_room:
  "normalize_rid rid \<noteq> c \<Longrightarrow> rooms (snd (joinRoom sid rid d s)) c = rooms s c"
  by (auto simp: joinRoom_def Let_def createRoomIfNeeded_def split: option.splits)

lemma input_winner_room:
  assumes "rooms s c = Some rm" and "winner rm \<noteq> None"
  shows "rooms (input sid d s) c = Some rm"
  using assms by (auto simp: input_def split: option.splits)

lemma disconnect_stopped_room:
  assumes "rooms s c = Some rm" and "interval rm = None"
  shows "rooms (disconnect sid s) c = None \<or>
     (\<exists>rm'. rooms (disconnect sid s) c = Some rm' \<and> interval rm' = None \<and> winner rm' = winner rm)"
  using assms by (auto simp: disconnect_def leave_room_def Let_def split: option.splits)

lemma tick_room_winner:
  assumes "winner rm \<noteq> None" and "interval rm = None"
  shows "interval (tick_room rm) = None \<and> winner (tick_room rm) = winner rm"
  using assms by (auto simp: tick_room_def Let_def split: option.splits)

lemma tickRoom_winner_room:
  assumes "rooms s c = Some rm" and "winner rm \<noteq> None" and "interval rm = None"
  shows "\<exists>rm'. rooms (tickRoom t s) c = Some rm' \<and> interval rm' = None \<and> winner rm' = winner rm"
  using assms tick_room_winner [OF assms(2,3)]
  by (auto simp: tickRoom_def split: option.splits)

lemma fire_winner_room:
  assumes "rooms s c = Some rm" and "winner rm \<noteq> None" and "interval rm = None"
  shows "\<exists>rm'. rooms (fire r s) c = Some rm' \<and> interval rm' = None \<and> winner rm' = winner rm"
proof -
  have "\<And>t. \<exists>rm'. rooms (tickRoom t s) c = Some rm' \<and> interval rm' = None \<and> winner rm' = winner rm"
    by (rule tickRoom_winner_room [OF assms])
  then show ?thesis using assms by (simp add: fire_def split: option.splits)
qed

lemma join_room_stopped:
  assumes "interval rm = None"
  shows "if 2 \<le> length (players (join_room sid r d rm))
         then interval (join_room sid r d rm) = Some sid \<and> winner (join_room sid r d rm) = None
         else interval (join_room sid r d rm) = None \<and> winner (join_room sid r d rm) = winner rm"
  using assms by (simp add: join_room_def Let_def)

text \<open>
  Claim C1 as the specification states it fails. The run \<open>over_trace\<close> ends with the winner P1
  recorded in room A, no timer, two players in it. A third connection, c, then joins: the
  room has three players, the winner is cleared and the room has a timer again, created
  by c; the next callback of that timer is a simulation step of the room, and changes it.
\<close>

theorem third_join_restarts:
  "rooms (run init over_trace) ''A'' = Some room_over \<and>
   winner room_over = Some P1 \<and> interval room_over = None \<and> length (players room_over) = 2 \<and>
   rooms (run init (over_trace @ [JoinRoom ''c'' (Some (STR ''A'')) None])) ''A''
     = Some (join_room ''c'' P3 None room_over) \<and>
   length (players (join_room ''c'' P3 None room_over)) = 3 \<and>
   interval (join_room ''c'' P3 None room_over) = Some ''c'' \<and>
   winner (join_room ''c'' P3 None room_over) = None \<and>
   rooms (run init (over_trace @ [JoinRoom ''c'' (Some (STR ''A'')) None, Tick ''A''])) ''A''
     = Some (tick_room (join_room ''c'' P3 None room_over)) \<and>
   tick_room (join_room ''c'' P3 None room_over) \<noteq> join_room ''c'' P3 None room_over"
proof -
  have 1: "rooms (run init over_trace) ''A'' = Some room_over"
    by (simp add: run_over srv_def)
  have 2: "winner room_over = Some P1" "interval room_over = None" "length (players room_over) = 2"
    by (simp_all add: room_over_def)
  have j: "snd (joinRoom ''c'' (Some (STR ''A'')) None (srv room_over)) =
      \<lparr> rooms = (\<lambda>_. None)(''A'' := Some (join_room ''c'' P3 None room_over)),
        roomId = (\<lambda>_. None)(''a'' := Some ''A'', ''b'' := Some ''A'', ''c'' := Some ''A'') \<rparr>"
    by (simp add: srv_def joinRoom_def normalize_rid_A createRoomIfNeeded_def assignRole_def
        obj_values_def Let_def room_over_def player_a_def player_b_def)
  have 3: "run init (over_trace @ [JoinRoom ''c'' (Some (STR ''A'')) None]) =
      \<lparr> rooms = (\<lambda>_. None)(''A'' := Some (join_room ''c'' P3 None room_over)),
        roomId = (\<lambda>_. None)(''a'' := Some ''A'', ''b'' := Some ''A'', ''c'' := Some ''A'') \<rparr>"
    by (simp only: run_append run_Cons run_Nil step.simps run_over j)
  have 4: "length (players (join_room ''c'' P3 None room_over)) = 3"
    "interval (join_room ''c'' P3 None room_over) = Some ''c''"
    "winner (join_room ''c'' P3 None room_over) = None"
    by (simp_all add: join_room_def Let_def room_over_def)
  have 5: "fire ''A'' \<lparr> rooms = (\<lambda>_. None)(''A'' := Some (join_room ''c'' P3 None room_over)),
        roomId = (\<lambda>_. None)(''a'' := Some ''A'', ''b'' := Some ''A'', ''c'' := Some ''A'') \<rparr> =
      \<lparr> rooms = (\<lambda>_. None)(''A'' := Some (tick_room (join_room ''c'' P3 None room_over))),
        roomId = (\<lambda>_. None)(''a'' := Some ''A'', ''b'' := Some ''A'', ''c'' := Some ''A'') \<rparr>"
    using 4 by (simp add: fire_def tickRoom_def obj_values_def)
  have "run init (over_trace @ [JoinRoom ''c'' (Some (STR ''A'')) None, Tick ''A'']) =
      fire ''A'' (run init (over_trace @ [JoinRoom ''c'' (Some (STR ''A'')) None]))"
    by (simp add: run_def)
  then have 6: "rooms (run init (over_trace @ [JoinRoom ''c'' (Some (STR ''A'')) None, Tick ''A''])) ''A''
      = Some (tick_room (join_room ''c'' P3 None room_over))"
    unfolding 3 5 by simp
  have "winner (tick_room (join_room ''c'' P3 None room_over)) = Some P1"
    by (simp add: join_room_def spawn_x_def spawn_y_def pick_thumbFile_def room_over_def
        hypot_less_iff tick_simps)
  then have 7: "tick_room (join_room ''c'' P3 None room_over) \<noteq> join_room ''c'' P3 None room_over"
    using 4(3) by auto
  have 8: "rooms (run init (over_trace @ [JoinRoom ''c'' (Some (STR ''A'')) None])) ''A''
      = Some (join_room ''c'' P3 None room_over)"
    unfolding 3 by simp
  from 1 2 8 4 6 7 show ?thesis by simp
qed

text \<open>
  Claim C1 as the code has it. In a state the server reaches, a room with a recorded
  winner holds no timer. It stays so, with the same winner, through every input (which
  leaves the room as it is), every callback of a timer, every disconnect that does not
  empty the room, every rejected join and every join to another room. A successful join
  to the room that leaves it with at least two players (from one member to two, or from
  two to three) clears the winner and gives the room a timer again, created by the
  joining connection, whose \<open>roomId\<close> is the room's code.
\<close>

theorem winner_until_join:
  assumes "rooms (run init evs) c = Some rm" and "winner rm \<noteq> None"
  shows "interval rm = None \<and>
     rooms (input sid d (run init evs)) c = Some rm \<and>
     (\<exists>rm'. rooms (fire r (run init evs)) c = Some rm' \<and>
          interval rm' = None \<and> winner rm' = winner rm) \<and>
     (rooms (disconnect sid (run init evs)) c = None \<or>
      (\<exists>rm'. rooms (disconnect sid (run init evs)) c = Some rm' \<and>
          interval rm' = None \<and> winner rm' = winner rm)) \<and>
     (\<exists>rm'. rooms (snd (joinRoom sid rid d' (run init evs))) c = Some rm' \<and>
        (if (\<exists>ro w h ra t. fst (joinRoom sid rid d' (run init evs)) = JoinOk ro w h ra t) \<and>
            normalize_rid rid = c \<and> 2 \<le> length (players rm')
         then interval rm' = Some sid \<and>
              roomId (snd (joinRoom sid rid d' (run init evs))) sid = Some c \<and>
              winner rm' = None
         else interval rm' = None \<and> winner rm' = winner rm))"
proof -
  define s where "s = run init evs"
  have rs: "rooms s c = Some rm" using assms(1) by (simp add: s_def)
  have "tick_ok rm" using tick_ok_run [of evs] assms(1) by (simp add: all_rooms_def)
  then have i: "interval rm = None" using assms(2) by (auto simp: tick_ok_def)
  have inp: "rooms (input sid d s) c = Some rm" by (rule input_winner_room [OF rs assms(2)])
  note fi = fire_winner_room [OF rs assms(2) i, of r]
  note dis = disconnect_stopped_room [OF rs i, of sid]
  have j: "\<exists>rm'. rooms (snd (joinRoom sid rid d' s)) c = Some rm' \<and>
        (if (\<exists>ro w h ra t. fst (joinRoom sid rid d' s) = JoinOk ro w h ra t) \<and>
            normalize_rid rid = c \<and> 2 \<le> length (players rm')
         then interval rm' = Some sid \<and> roomId (snd (joinRoom sid rid d' s)) sid = Some c \<and>
              winner rm' = None
         else interval rm' = None \<and> winner rm' = winner rm)"
  proof (cases "normalize_rid rid = c")
    case False
    then show ?thesis using joinRoom_other_room [OF False, of sid d' s] rs i by simp
  next
    case True
    show ?thesis
    proof (cases "c = [] \<or> 12 < length c")
      case inv: True
      then have "joinRoom sid rid d' s =
          (JoinError ''Invalid room id'', s\<lparr> roomId := (roomId s)(sid := Some (normalize_rid rid)) \<rparr>)"
        using True by (intro invalid_join_rejected) simp
      then show ?thesis using rs i by simp
    next
      case val: False
      then have v: "c \<noteq> []" "length c \<le> 12" by simp_all
      show ?thesis
      proof (cases "assignRole rm")
        case None
        then show ?thesis using joinRoom_full [OF True v rs None, of sid d'] rs i by simp
      next
        case (Some ro)
        have cr: "createRoomIfNeeded c (rooms s) c = Some rm"
          using rs by (simp add: createRoomIfNeeded_present)
        show ?thesis
          using joinRoom_seat [OF True v cr Some, of sid d'] join_room_stopped [OF i, of sid ro d'] True
          by simp
      qed
    qed
  qed
  from i inp fi dis j show ?thesis unfolding s_def by blast
qed

theorem winner_until_join_witness:
  "rooms (run init over_trace) ''A'' = Some room_over \<and> winner room_over = Some P1 \<and>
   interval room_over = None \<and>
   rooms (input ''a'' release_all (run init over_trace)) ''A'' = Some room_over \<and>
   (\<exists>rm'. rooms (snd (joinRoom ''c'' (Some (STR ''A'')) None (run init over_trace))) ''A'' = Some rm' \<and>
       length (players rm') = 3 \<and> interval rm' = Some ''c'' \<and> winner rm' = None)"
proof -
  have r: "rooms (run init over_trace) ''A'' = Some room_over"
    by (simp add: run_over srv_def)
  have w: "winner room_over \<noteq> None" "winner room_over = Some P1" by (simp_all add: room_over_def)
  note ta = winner_until_join [OF r w(1), where sid = "''a''" and d = release_all]
  note t = winner_until_join [OF r w(1), where sid = "''c''" and rid = "Some (STR ''A'')" and d' = None]
  have ok: "fst (joinRoom ''c'' (Some (STR ''A'')) None (run init over_trace)) = JoinOk P3 800 500 30 2"
    and rj: "rooms (snd (joinRoom ''c'' (Some (STR ''A'')) None (run init over_trace))) ''A''
      = Some (join_room ''c'' P3 None room_over)"
    by (simp_all add: run_over srv_def joinRoom_def normalize_rid_A
        createRoomIfNeeded_def assignRole_def obj_values_def Let_def room_over_def
        player_a_def player_b_def room_ab_def)
  have l: "length (players (join_room ''c'' P3 None room_over)) = 3"
    by (simp add: join_room_def Let_def room_over_def)
  from ta have "interval room_over = None"
    and "rooms (input ''a'' release_all (run init over_trace)) ''A'' = Some room_over"
    by simp_all
  moreover from t ok rj l have "interval (join_room ''c'' P3 None room_over) = Some ''c'' \<and>
      winner (join_room ''c'' P3 None room_over) = None"
    by (simp add: normalize_rid_A)
  ultimately show ?thesis using r w rj l by simp
qed

end
